theory Spec2Isabelle
  imports Complex_Main "HOL-Library.AList" "HOL-Library.Product_Lexorder"
begin

section \<open>Python values used by the GitHub client\<close>

text \<open>
  The client of \<^verbatim>\<open>osos/api_github/api_github.py\<close> is embedded as pure functions.
  Exceptions are values of \<open>error\<close>; a function that can raise returns \<open>error + 'a\<close>
  with \<open>Inl\<close> for the exception. In Python 3 \<^verbatim>\<open>IOError\<close> is an alias of
  \<^verbatim>\<open>OSError\<close>, so both are the constructor \<open>OSError\<close>.
\<close>

datatype error =
    OSError string
  | TypeError string
  | KeyError string
  | ValueError string
  | RuntimeError string
  | AttributeError string

abbreviation IOError :: "string \<Rightarrow> error" where
  "IOError \<equiv> OSError"

text \<open>
  What \<^verbatim>\<open>response.json()\<close> returns. Python dictionaries keep insertion order, so a
  dictionary is an association list (updated with \<open>AList.update\<close>, which overwrites in
  place or appends, as \<^verbatim>\<open>d[k] = v\<close> does). JSON numbers are integers here.
\<close>

datatype json =
    JNull
  | JBool bool
  | JInt int
  | JStr string
  | JList "json list"
  | JDict "(string \<times> json) list"

text \<open>Python's truth value of an object (\<^verbatim>\<open>bool(x)\<close>).\<close>

fun truthy :: "json \<Rightarrow> bool" where
  "truthy JNull = False"
| "truthy (JBool b) = b"
| "truthy (JInt n) = (n \<noteq> 0)"
| "truthy (JStr s) = (s \<noteq> [])"
| "truthy (JList xs) = (xs \<noteq> [])"
| "truthy (JDict kvs) = (kvs \<noteq> [])"

text \<open>
  \<^verbatim>\<open>any(x)\<close> iterates its argument: the elements of a list, the keys of a dictionary,
  the characters of a string (each a non-empty string, hence true). Anything else is not
  iterable and raises \<^verbatim>\<open>TypeError\<close>.
\<close>

fun py_any :: "json \<Rightarrow> error + bool" where
  "py_any (JList xs) = Inr (list_ex truthy xs)"
| "py_any (JDict kvs) = Inr (list_ex (\<lambda>k. k \<noteq> []) (map fst kvs))"
| "py_any (JStr s) = Inr (s \<noteq> [])"
| "py_any JNull = Inl (TypeError ''NoneType object is not iterable'')"
| "py_any (JBool b) = Inl (TypeError ''bool object is not iterable'')"
| "py_any (JInt n) = Inl (TypeError ''int object is not iterable'')"

text \<open>\<^verbatim>\<open>str(type(x))\<close>, as \<^verbatim>\<open>'{}'.format(type(x))\<close> prints it.\<close>

fun type_str :: "json \<Rightarrow> string" where
  "type_str JNull = ''<class 'NoneType'>''"
| "type_str (JBool b) = ''<class 'bool'>''"
| "type_str (JInt n) = ''<class 'int'>''"
| "type_str (JStr s) = ''<class 'str'>''"
| "type_str (JList xs) = ''<class 'list'>''"
| "type_str (JDict kvs) = ''<class 'dict'>''"

text \<open>\<^verbatim>\<open>len(x)\<close>; the argument may also be Python's \<^verbatim>\<open>None\<close> (\<open>None\<close> here).\<close>

fun py_len :: "json option \<Rightarrow> error + nat" where
  "py_len None = Inl (TypeError ''object of type NoneType has no len()'')"
| "py_len (Some (JList xs)) = Inr (length xs)"
| "py_len (Some (JDict kvs)) = Inr (length kvs)"
| "py_len (Some (JStr s)) = Inr (length s)"
| "py_len (Some JNull) = Inl (TypeError ''object of type NoneType has no len()'')"
| "py_len (Some (JBool b)) = Inl (TypeError ''object of type bool has no len()'')"
| "py_len (Some (JInt n)) = Inl (TypeError ''object of type int has no len()'')"

text \<open>\<^verbatim>\<open>x[key]\<close> with a string key: only a dictionary can be indexed that way.\<close>

fun py_getitem :: "json \<Rightarrow> string \<Rightarrow> error + json" where
  "py_getitem (JDict kvs) k = (case map_of kvs k of None \<Rightarrow> Inl (KeyError k) | Some v \<Rightarrow> Inr v)"
| "py_getitem (JList xs) k = Inl (TypeError ''list indices must be integers or slices, not str'')"
| "py_getitem (JStr s) k = Inl (TypeError ''string indices must be integers, not str'')"
| "py_getitem JNull k = Inl (TypeError ''NoneType object is not subscriptable'')"
| "py_getitem (JBool b) k = Inl (TypeError ''bool object is not subscriptable'')"
| "py_getitem (JInt n) k = Inl (TypeError ''int object is not subscriptable'')"

text \<open>\<^verbatim>\<open>str(n)\<close> for an integer.\<close>

definition digit_char :: "nat \<Rightarrow> char" where
  "digit_char d = ''0123456789'' ! d"

fun str_nat :: "nat \<Rightarrow> string" where
  "str_nat n = (if n < 10 then [digit_char n] else str_nat (n div 10) @ [digit_char (n mod 10)])"

definition str_int :: "int \<Rightarrow> string" where
  "str_int i = (if i < 0 then CHR ''-'' # str_nat (nat (- i)) else str_nat (nat i))"

text \<open>\<^verbatim>\<open>'{}'.format(x)\<close> for a value that is a string or \<^verbatim>\<open>None\<close>.\<close>

definition str_opt :: "string option \<Rightarrow> string" where
  "str_opt x = (case x of None \<Rightarrow> ''None'' | Some s \<Rightarrow> s)"

section \<open>Requests and responses\<close>

type_synonym headers = "(string \<times> string) list"

datatype pval = PStr string | PInt int

type_synonym params = "(string \<times> pval) list"

text \<open>
  The keyword arguments \<^verbatim>\<open>**kwargs\<close> of the client's methods: whether the keys
  \<^verbatim>\<open>'headers'\<close> and \<^verbatim>\<open>'params'\<close> are present, and the remaining keywords, which the
  client only passes on.
\<close>

record kwargs =
  kw_headers :: "headers option"
  kw_params :: "params option"
  kw_rest :: "(string \<times> string) list"

text \<open>
  One call \<^verbatim>\<open>requests.get(request, headers=headers, **kwargs)\<close>: the URL, the headers
  and the keyword arguments that were passed. The query parameters of the call are
  \<open>kw_params (req_kwargs r)\<close>.
\<close>

record http_request =
  req_url :: string
  req_headers :: headers
  req_kwargs :: kwargs

record response =
  status_code :: int
  reason :: string
  resp_text :: string
  resp_json :: "json option"
  links :: "(string \<times> (string \<times> string) list) list"
  resp_url :: string

text \<open>
  The network is a deterministic server: its answer to a request may depend on all the
  requests made so far. The state threaded through the client is the list of requests
  sent, oldest first.
\<close>

type_synonym server = "http_request list \<Rightarrow> response"

definition requests_get ::
  "server \<Rightarrow> http_request list \<Rightarrow> string \<Rightarrow> headers \<Rightarrow> kwargs \<Rightarrow> response \<times> http_request list" where
  "requests_get srv sent request hdrs kw =
     (let r = \<lparr>req_url = request, req_headers = hdrs, req_kwargs = kw\<rparr>
      in (srv (sent @ [r]), sent @ [r]))"

text \<open>\<^verbatim>\<open>temp.json()\<close>: a body that is not JSON raises \<^verbatim>\<open>ValueError\<close>.\<close>

definition response_json :: "response \<Rightarrow> error + json" where
  "response_json r =
     (case resp_json r of None \<Rightarrow> Inl (ValueError ''body is not JSON'') | Some j \<Rightarrow> Inr j)"

text \<open>The message of the error raised for a status other than 200.\<close>

definition status_msg :: "response \<Rightarrow> string \<Rightarrow> string" where
  "status_msg out request =
     ''Received unexpected status code \"'' @ str_int (status_code out)
       @ ''\" for reason \"'' @ reason out @ ''\".'' @ [CHR 0x0A]
       @ ''Request: '' @ request @ [CHR 0x0A] @ ''Output: '' @ resp_text out"

section \<open>The client\<close>

record github =
  base_req :: string
  token :: "string option"

definition BASE_REQ :: "string \<Rightarrow> string \<Rightarrow> string" where
  "BASE_REQ owner repo = ''https://api.github.com/repos/'' @ owner @ ''/'' @ repo"

text \<open>
  \<^verbatim>\<open>Github.__init__\<close>. The environment is the function \<open>getenv\<close>. Both tests of the
  source read the argument \<^verbatim>\<open>token\<close>.
\<close>

definition init ::
  "(string \<Rightarrow> string option) \<Rightarrow> string \<Rightarrow> string \<Rightarrow> string option \<Rightarrow> error + github" where
  "init getenv owner repo tok =
     (let self = \<lparr>base_req = BASE_REQ owner repo, token = tok\<rparr>;
          self = (if tok = None then self\<lparr>token := getenv ''GITHUB_TOKEN''\<rparr> else self)
      in if tok = None
         then Inl (OSError ''Could not find environment variable \"GITHUB_TOKEN\".'')
         else Inr self)"

text \<open>\<^verbatim>\<open>key in d\<close> for a dictionary.\<close>

definition dict_has :: "'k \<Rightarrow> ('k \<times> 'v) list \<Rightarrow> bool" where
  "dict_has k d = (k \<in> set (map fst d))"

text \<open>
  Lines 57 to 59 (and 88 to 90, 134 to 136): \<^verbatim>\<open>headers = kwargs.pop('headers', {})\<close>,
  then the client's own token unless the caller gave an \<^verbatim>\<open>Authorization\<close> header.
\<close>

definition pop_headers :: "github \<Rightarrow> kwargs \<Rightarrow> headers \<times> kwargs" where
  "pop_headers self kwargs =
     (let headers = (case kw_headers kwargs of None \<Rightarrow> [] | Some h \<Rightarrow> h);
          kwargs = kwargs\<lparr>kw_headers := None\<rparr>;
          headers = (if \<not> dict_has ''Authorization'' headers
                     then AList.update ''Authorization'' (''token '' @ str_opt (token self)) headers
                     else headers)
      in (headers, kwargs))"

text \<open>\<^verbatim>\<open>Github.get_request\<close>: one GET; the keyword arguments go through as they are.\<close>

definition get_request ::
  "server \<Rightarrow> github \<Rightarrow> string \<Rightarrow> kwargs \<Rightarrow> http_request list
     \<Rightarrow> (error + response) \<times> http_request list" where
  "get_request srv self request kwargs sent =
     (let (headers, kwargs) = pop_headers self kwargs;
          (out, sent) = requests_get srv sent request headers kwargs
      in if status_code out \<noteq> 200
         then (Inl (IOError (status_msg out request)), sent)
         else (Inr out, sent))"

text \<open>
  Lines 92 and 93 (138 and 139): \<^verbatim>\<open>params = kwargs.pop('params', {})\<close> and
  \<^verbatim>\<open>params['page'] = 0\<close>.
\<close>

definition pop_params :: "kwargs \<Rightarrow> params \<times> kwargs" where
  "pop_params kwargs =
     (let params = (case kw_params kwargs of None \<Rightarrow> [] | Some p \<Rightarrow> p);
          kwargs = kwargs\<lparr>kw_params := None\<rparr>;
          params = AList.update ''page'' (PInt 0) params
      in (params, kwargs))"

text \<open>\<^verbatim>\<open>params['page'] += 1\<close>.\<close>

definition page_incr :: "params \<Rightarrow> error + params" where
  "page_incr params =
     (case map_of params ''page'' of
        None \<Rightarrow> Inl (KeyError ''page'')
      | Some (PInt n) \<Rightarrow> Inr (AList.update ''page'' (PInt (n + 1)) params)
      | Some (PStr s) \<Rightarrow> Inl (TypeError ''can only concatenate str (not int) to str''))"

text \<open>
  The two branches of \<^verbatim>\<open>get_all\<close> that extend \<^verbatim>\<open>out\<close>: \<^verbatim>\<open>out.update(temp)\<close> for a
  dictionary page and \<^verbatim>\<open>out += temp\<close> for a list page. \<^verbatim>\<open>out\<close> is the first page that
  passed \<^verbatim>\<open>any\<close>, so it is a list, a dictionary or a string.
\<close>

definition dict_update :: "(string \<times> json) list \<Rightarrow> (string \<times> json) list \<Rightarrow> (string \<times> json) list" where
  "dict_update d e = fold (\<lambda>(k, v) acc. AList.update k v acc) e d"

fun out_update :: "json \<Rightarrow> (string \<times> json) list \<Rightarrow> error + json" where
  "out_update (JDict d) e = Inr (JDict (dict_update d e))"
| "out_update (JList xs) e = Inl (AttributeError ''list object has no attribute update'')"
| "out_update (JStr s) e = Inl (AttributeError ''str object has no attribute update'')"
| "out_update JNull e = Inl (AttributeError ''NoneType object has no attribute update'')"
| "out_update (JBool b) e = Inl (AttributeError ''bool object has no attribute update'')"
| "out_update (JInt n) e = Inl (AttributeError ''int object has no attribute update'')"

fun out_iadd :: "json \<Rightarrow> json list \<Rightarrow> error + json" where
  "out_iadd (JList xs) ys = Inr (JList (xs @ ys))"
| "out_iadd (JDict d) ys = Inl (TypeError ''unsupported operand type(s) for +=: dict and list'')"
| "out_iadd (JStr s) ys = Inl (TypeError ''can only concatenate str (not list) to str'')"
| "out_iadd JNull ys = Inl (TypeError ''unsupported operand type(s) for +=: NoneType and list'')"
| "out_iadd (JBool b) ys = Inl (TypeError ''unsupported operand type(s) for +=: bool and list'')"
| "out_iadd (JInt n) ys = Inl (TypeError ''unsupported operand type(s) for +=: int and list'')"

text \<open>
  The loop of \<^verbatim>\<open>get_all\<close> (lines 142 to 165). It may run forever, so it takes fuel:
  one unit per request. The result is \<open>None\<close> when the fuel runs out before the loop
  ends, \<open>Some (Inl e)\<close> when \<open>e\<close> is raised and \<open>Some (Inr out)\<close> when \<open>out\<close> is
  returned; the requests sent come with it in every case. Python's \<^verbatim>\<open>None\<close> for
  \<^verbatim>\<open>out\<close> is \<open>None\<close>.
\<close>

fun get_all_loop ::
  "nat \<Rightarrow> server \<Rightarrow> string \<Rightarrow> headers \<Rightarrow> kwargs \<Rightarrow> params \<Rightarrow> json option \<Rightarrow> http_request list
     \<Rightarrow> (error + json option) option \<times> http_request list" where
  "get_all_loop 0 srv request headers kwargs params out sent = (None, sent)"
| "get_all_loop (Suc fuel) srv request headers kwargs params out sent =
     (case page_incr params of
        Inl e \<Rightarrow> (Some (Inl e), sent)
      | Inr params \<Rightarrow>
         (let (temp, sent) = requests_get srv sent request headers kwargs
          in if status_code temp \<noteq> 200
             then (Some (Inl (IOError (status_msg temp request))), sent)
             else
               (case response_json temp of
                  Inl e \<Rightarrow> (Some (Inl e), sent)
                | Inr temp \<Rightarrow>
                   (case py_any temp of
                      Inl e \<Rightarrow> (Some (Inl e), sent)
                    | Inr a \<Rightarrow>
                       if \<not> a then (Some (Inr out), sent)
                       else
                         (case out of
                            None \<Rightarrow>
                              get_all_loop fuel srv request headers kwargs params (Some temp) sent
                          | Some out \<Rightarrow>
                             (case temp of
                                JDict e \<Rightarrow>
                                  (case out_update out e of
                                     Inl err \<Rightarrow> (Some (Inl err), sent)
                                   | Inr out \<Rightarrow>
                                       get_all_loop fuel srv request headers kwargs params (Some out) sent)
                              | JList ys \<Rightarrow>
                                  (case out_iadd out ys of
                                     Inl err \<Rightarrow> (Some (Inl err), sent)
                                   | Inr out \<Rightarrow>
                                       get_all_loop fuel srv request headers kwargs params (Some out) sent)
                              | _ \<Rightarrow>
                                  (Some (Inl (TypeError
                                     (''JSON output is type \"'' @ type_str temp
                                        @ ''\", not dict or list, could not parse output from request: \"''
                                        @ request @ ''\"''))), sent)))))))"

definition get_all ::
  "nat \<Rightarrow> server \<Rightarrow> github \<Rightarrow> string \<Rightarrow> kwargs \<Rightarrow> http_request list
     \<Rightarrow> (error + json option) option \<times> http_request list" where
  "get_all fuel srv self request kwargs sent =
     (let (headers, kwargs) = pop_headers self kwargs;
          (params, kwargs) = pop_params kwargs
      in get_all_loop fuel srv request headers kwargs params None sent)"

section \<open>The paginating generator\<close>

text \<open>
  \<^verbatim>\<open>Github.get_generator\<close> is a generator function. Its state between two
  \<^verbatim>\<open>next\<close> calls is the local variables, the entries of the current page that
  \<^verbatim>\<open>for entry in temp\<close> has not yielded yet, and whether the body has ended. The lines
  before the loop (88 to 93) only compute local variables, so the model runs them when
  the generator is made.
\<close>

datatype gen_event = Yield json | StopIteration | Raise error

record generator =
  gen_request :: string
  gen_headers :: headers
  gen_kwargs :: kwargs
  gen_params :: params
  gen_entries :: "json list"
  gen_done :: bool

definition get_generator :: "github \<Rightarrow> string \<Rightarrow> kwargs \<Rightarrow> generator" where
  "get_generator self request kwargs =
     (let (headers, kwargs) = pop_headers self kwargs;
          (params, kwargs) = pop_params kwargs
      in \<lparr>gen_request = request, gen_headers = headers, gen_kwargs = kwargs,
          gen_params = params, gen_entries = [], gen_done = False\<rparr>)"

text \<open>
  One \<^verbatim>\<open>next(generator)\<close>: the next entry of the current page if there is one, and
  otherwise one turn of the \<^verbatim>\<open>while\<close> loop (lines 96 to 115). A page that passes
  \<^verbatim>\<open>any\<close> has an entry, so the branch for a list without entries is never taken
  (lemma \<open>py_any_Nil\<close>).
\<close>

definition gen_next ::
  "server \<Rightarrow> generator \<Rightarrow> http_request list \<Rightarrow> gen_event \<times> generator \<times> http_request list" where
  "gen_next srv g sent =
     (if gen_done g then (StopIteration, g, sent)
      else
        (case gen_entries g of
           entry # rest \<Rightarrow> (Yield entry, g\<lparr>gen_entries := rest\<rparr>, sent)
         | [] \<Rightarrow>
            (case page_incr (gen_params g) of
               Inl e \<Rightarrow> (Raise e, g\<lparr>gen_done := True\<rparr>, sent)
             | Inr params \<Rightarrow>
                (let g = g\<lparr>gen_params := params\<rparr>;
                     (temp, sent) = requests_get srv sent (gen_request g) (gen_headers g) (gen_kwargs g)
                 in if status_code temp \<noteq> 200
                    then (Raise (IOError (status_msg temp (gen_request g))), g\<lparr>gen_done := True\<rparr>, sent)
                    else
                      (case response_json temp of
                         Inl e \<Rightarrow> (Raise e, g\<lparr>gen_done := True\<rparr>, sent)
                       | Inr temp \<Rightarrow>
                          (case py_any temp of
                             Inl e \<Rightarrow> (Raise e, g\<lparr>gen_done := True\<rparr>, sent)
                           | Inr a \<Rightarrow>
                              if \<not> a then (StopIteration, g\<lparr>gen_done := True\<rparr>, sent)
                              else
                                (case temp of
                                   JList ys \<Rightarrow>
                                     (case ys of
                                        entry # rest \<Rightarrow> (Yield entry, g\<lparr>gen_entries := rest\<rparr>, sent)
                                      | [] \<Rightarrow> (StopIteration, g\<lparr>gen_done := True\<rparr>, sent))
                                 | _ \<Rightarrow>
                                     (Raise (TypeError
                                        (''JSON output is type \"'' @ type_str temp
                                           @ ''\", not list, could not parse output from request: \"''
                                           @ gen_request g @ ''\"'')), g\<lparr>gen_done := True\<rparr>, sent))))))))"

text \<open>
  \<^verbatim>\<open>for x in generator: body\<close>. The body maps the loop's variables to their new
  values and says how it ends: normally, with \<^verbatim>\<open>break\<close>, or with an exception. One
  unit of fuel per \<^verbatim>\<open>next\<close>; \<open>None\<close> when the fuel runs out first.
\<close>

datatype 's step = Continue 's | Break 's | Throw error

fun for_loop ::
  "nat \<Rightarrow> server \<Rightarrow> (json \<Rightarrow> 's \<Rightarrow> 's step) \<Rightarrow> generator \<Rightarrow> 's \<Rightarrow> http_request list
     \<Rightarrow> (error + 's) option \<times> generator \<times> http_request list" where
  "for_loop 0 srv body g s sent = (None, g, sent)"
| "for_loop (Suc fuel) srv body g s sent =
     (case gen_next srv g sent of
        (StopIteration, g, sent) \<Rightarrow> (Some (Inr s), g, sent)
      | (Raise e, g, sent) \<Rightarrow> (Some (Inl e), g, sent)
      | (Yield x, g, sent) \<Rightarrow>
         (case body x s of
            Continue s \<Rightarrow> for_loop fuel srv body g s sent
          | Break s \<Rightarrow> (Some (Inr s), g, sent)
          | Throw e \<Rightarrow> (Some (Inl e), g, sent)))"

text \<open>\<^verbatim>\<open>list(generator)\<close>: every entry the generator yields, in order.\<close>

definition collect ::
  "nat \<Rightarrow> server \<Rightarrow> generator \<Rightarrow> http_request list
     \<Rightarrow> (error + json list) option \<times> generator \<times> http_request list" where
  "collect fuel srv g sent = for_loop fuel srv (\<lambda>x acc. Continue (acc @ [x])) g [] sent"

section \<open>Timestamps\<close>

text \<open>
  \<^verbatim>\<open>datetime.datetime\<close> and \<^verbatim>\<open>datetime.date\<close> of the standard library. A date is the
  triple of year, month and day, ordered as Python orders dates.
\<close>

record datetime =
  dt_year :: int
  dt_month :: int
  dt_day :: int
  dt_hour :: int
  dt_minute :: int
  dt_second :: int
  dt_microsecond :: int

type_synonym date = "int \<times> int \<times> int"

definition dt_date :: "datetime \<Rightarrow> date" where
  "dt_date d = (dt_year d, dt_month d, dt_day d)"

definition is_leap :: "int \<Rightarrow> bool" where
  "is_leap y = (if y mod 100 = 0 then y mod 400 = 0 else y mod 4 = 0)"

definition days_in_month :: "int \<Rightarrow> int \<Rightarrow> int" where
  "days_in_month y m =
     (if m = 2 then (if is_leap y then 29 else 28)
      else if m \<in> {4, 6, 9, 11} then 30 else 31)"

definition days_before_year :: "int \<Rightarrow> int" where
  "days_before_year y = (y - 1) * 365 + (y - 1) div 4 - (y - 1) div 100 + (y - 1) div 400"

definition toordinal :: "date \<Rightarrow> int" where
  "toordinal d =
     (case d of (y, m, dd) \<Rightarrow>
        days_before_year y + sum_list (map (days_in_month y) [1..m - 1]) + dd)"

text \<open>\<^verbatim>\<open>(d1 - d0).total_seconds()\<close>, exactly (no floating point rounding).\<close>

definition micros :: "datetime \<Rightarrow> int" where
  "micros d =
     ((toordinal (dt_date d) * 86400 + dt_hour d * 3600 + dt_minute d * 60 + dt_second d)
        * 1000000 + dt_microsecond d)"

definition total_seconds :: "datetime \<Rightarrow> datetime \<Rightarrow> rat" where
  "total_seconds d1 d0 = of_int (micros d1 - micros d0) / 1000000"

text \<open>
  \<^verbatim>\<open>datetime.strptime(s, '%Y-%m-%dT%H:%M:%SZ')\<close>. The library matches the format as a
  regular expression: four digits for the year, one or two digits for every other field
  (the day may also be a space and a digit), the letters in either case. The fields are
  runs without a separator, so each ends at the first separator. A field out of range, a
  day the month does not have, or any other text raises \<^verbatim>\<open>ValueError\<close>.
\<close>

definition digit_val :: "char \<Rightarrow> nat option" where
  "digit_val c = map_of (zip ''0123456789'' [0, 1, 2, 3, 4, 5, 6, 7, 8, 9]) c"

definition is_digit :: "char \<Rightarrow> bool" where
  "is_digit c = (digit_val c \<noteq> None)"

definition num_val :: "string \<Rightarrow> int" where
  "num_val s = foldl (\<lambda>a c. 10 * a + int (case digit_val c of None \<Rightarrow> 0 | Some d \<Rightarrow> d)) 0 s"

definition field :: "nat \<Rightarrow> int \<Rightarrow> int \<Rightarrow> string \<Rightarrow> int option" where
  "field minlen lo hi s =
     (if minlen \<le> length s \<and> length s \<le> max minlen 2 \<and> list_all is_digit s
         \<and> lo \<le> num_val s \<and> num_val s \<le> hi
      then Some (num_val s) else None)"

definition day_field :: "string \<Rightarrow> int option" where
  "day_field s =
     (case s of
        [c, d] \<Rightarrow> if c = CHR '' '' then field 1 1 9 [d] else field 1 1 31 s
      | _ \<Rightarrow> field 1 1 31 s)"

definition split_at :: "char list \<Rightarrow> string \<Rightarrow> (string \<times> string) option" where
  "split_at seps s =
     (case dropWhile (\<lambda>c. c \<notin> set seps) s of
        [] \<Rightarrow> None
      | c # rest \<Rightarrow> Some (takeWhile (\<lambda>c. c \<notin> set seps) s, rest))"

fun split_seps :: "char list list \<Rightarrow> string \<Rightarrow> string list option" where
  "split_seps [] s = Some [s]"
| "split_seps (seps # later) s =
     (case split_at seps s of
        None \<Rightarrow> None
      | Some (f, rest) \<Rightarrow> map_option ((#) f) (split_seps later rest))"

definition make_datetime :: "int \<Rightarrow> int \<Rightarrow> int \<Rightarrow> int \<Rightarrow> int \<Rightarrow> int \<Rightarrow> datetime option" where
  "make_datetime y m d H M S =
     (if days_in_month y m < d then None
      else Some \<lparr>dt_year = y, dt_month = m, dt_day = d, dt_hour = H, dt_minute = M,
                 dt_second = S, dt_microsecond = 0\<rparr>)"

definition parse_fields :: "string list \<Rightarrow> datetime option" where
  "parse_fields fs =
     (if length fs = 7 \<and> fs ! 6 = [] then
        Option.bind (field 4 1 9999 (fs ! 0)) (\<lambda>y.
        Option.bind (field 1 1 12 (fs ! 1)) (\<lambda>m.
        Option.bind (day_field (fs ! 2)) (\<lambda>d.
        Option.bind (field 1 0 23 (fs ! 3)) (\<lambda>H.
        Option.bind (field 1 0 59 (fs ! 4)) (\<lambda>M.
        Option.bind (field 1 0 59 (fs ! 5)) (\<lambda>S.
        make_datetime y m d H M S))))))
      else None)"

definition parse_time :: "string \<Rightarrow> datetime option" where
  "parse_time s =
     Option.bind (split_seps [''-'', ''-'', ''Tt'', '':'', '':'', ''Zz''] s) parse_fields"

definition strptime :: "json \<Rightarrow> error + datetime" where
  "strptime v =
     (case v of
        JStr s \<Rightarrow>
          (case parse_time s of
             None \<Rightarrow> Inl (ValueError (''time data '' @ s @ '' does not match format %Y-%m-%dT%H:%M:%SZ''))
           | Some d \<Rightarrow> Inr d)
      | _ \<Rightarrow> Inl (TypeError ''strptime() argument 1 must be str''))"

section \<open>Issues and pull requests\<close>

text \<open>Lines 216 to 219: the state filter goes into the \<^verbatim>\<open>params\<close> keyword.\<close>

definition set_state :: "string \<Rightarrow> kwargs \<Rightarrow> kwargs" where
  "set_state state kwargs =
     (case kw_params kwargs of
        Some p \<Rightarrow> kwargs\<lparr>kw_params := Some (AList.update ''state'' (PStr state) p)\<rparr>
      | None \<Rightarrow> kwargs\<lparr>kw_params := Some [(''state'', PStr state)]\<rparr>)"

text \<open>\<^verbatim>\<open>datetime.strptime(item[key], self.TIME_FORMAT)\<close>.\<close>

definition item_time :: "json \<Rightarrow> string \<Rightarrow> error + datetime" where
  "item_time item key = (case py_getitem item key of Inl e \<Rightarrow> Inl e | Inr v \<Rightarrow> strptime v)"

text \<open>
  The body of the loop over the items (lines 227 to 234). The loop's variables are
  \<^verbatim>\<open>d1\<close> and \<^verbatim>\<open>lifetimes\<close>.
\<close>

definition lifetime_body :: "string \<Rightarrow> json \<Rightarrow> datetime \<times> rat list \<Rightarrow> (datetime \<times> rat list) step" where
  "lifetime_body state item v =
     (case v of (d1, lifetimes) \<Rightarrow>
        (case item_time item ''created_at'' of
           Inl e \<Rightarrow> Throw e
         | Inr d0 \<Rightarrow>
            (case (if state = ''closed'' then item_time item ''closed_at'' else Inr d1) of
               Inl e \<Rightarrow> Throw e
             | Inr d1 \<Rightarrow>
                (let lifetime = total_seconds d1 d0 / (24 * 3600)
                 in Continue (d1, lifetimes @ [lifetime])))))"

text \<open>\<^verbatim>\<open>len(items)\<close> for the generator \<^verbatim>\<open>items\<close>: a generator has no length.\<close>

definition generator_len :: "generator \<Rightarrow> error + nat" where
  "generator_len g = Inl (TypeError ''object of type generator has no len()'')"

text \<open>\<^verbatim>\<open>numpy.mean\<close> and \<^verbatim>\<open>numpy.median\<close> of a list of numbers, computed exactly.\<close>

datatype number = NInt int | NFloat rat | NaN

definition np_mean :: "rat list \<Rightarrow> number" where
  "np_mean xs = (if xs = [] then NaN else NFloat (sum_list xs / of_nat (length xs)))"

definition np_median :: "rat list \<Rightarrow> number" where
  "np_median xs =
     (if xs = [] then NaN
      else
        (let s = sort xs; n = length xs
         in if even n then NFloat ((s ! (n div 2 - 1) + s ! (n div 2)) / 2)
            else NFloat (s ! (n div 2))))"

text \<open>
  \<^verbatim>\<open>Github._issues_pulls\<close>. \<open>now\<close> is what \<^verbatim>\<open>datetime.datetime.now()\<close> returns. The
  dictionary display of lines 236 to 239 evaluates its values from left to right and
  names the key of the mean twice.
\<close>

definition issues_pulls ::
  "nat \<Rightarrow> server \<Rightarrow> github \<Rightarrow> datetime \<Rightarrow> string \<Rightarrow> string \<Rightarrow> kwargs \<Rightarrow> http_request list
     \<Rightarrow> (error + (string \<times> number) list) option \<times> http_request list" where
  "issues_pulls fuel srv self now option state kwargs sent =
     (let kwargs = set_state state kwargs;
          request = base_req self @ ''/'' @ option;
          items = get_generator self request kwargs;
          lifetimes = [];
          d1 = now
      in case for_loop fuel srv (lifetime_body state) items (d1, lifetimes) sent of
           (None, items, sent) \<Rightarrow> (None, sent)
         | (Some (Inl e), items, sent) \<Rightarrow> (Some (Inl e), sent)
         | (Some (Inr (d1, lifetimes)), items, sent) \<Rightarrow>
             (case generator_len items of
                Inl e \<Rightarrow> (Some (Inl e), sent)
              | Inr n \<Rightarrow>
                  (Some (Inr
                     (AList.update (option @ ''_'' @ state @ ''_mean_lifetime'') (np_median lifetimes)
                       (AList.update (option @ ''_'' @ state @ ''_mean_lifetime'') (np_mean lifetimes)
                         [(option @ ''_'' @ state, NInt (int n))]))), sent)))"

section \<open>Counts of merged records\<close>

text \<open>\<^verbatim>\<open>len(self.get_all(request, **kwargs))\<close>.\<close>

definition len_of ::
  "(error + json option) option \<times> http_request list \<Rightarrow> (error + nat) option \<times> http_request list" where
  "len_of r =
     (case r of
        (None, sent) \<Rightarrow> (None, sent)
      | (Some (Inl e), sent) \<Rightarrow> (Some (Inl e), sent)
      | (Some (Inr out), sent) \<Rightarrow> (Some (py_len out), sent))"

definition forks ::
  "nat \<Rightarrow> server \<Rightarrow> github \<Rightarrow> kwargs \<Rightarrow> http_request list \<Rightarrow> (error + nat) option \<times> http_request list" where
  "forks fuel srv self kwargs sent =
     (let request = base_req self @ ''/forks''
      in len_of (get_all fuel srv self request kwargs sent))"

definition stargazers ::
  "nat \<Rightarrow> server \<Rightarrow> github \<Rightarrow> kwargs \<Rightarrow> http_request list \<Rightarrow> (error + nat) option \<times> http_request list" where
  "stargazers fuel srv self kwargs sent =
     (let request = base_req self @ ''/stargazers''
      in len_of (get_all fuel srv self request kwargs sent))"

definition subscribers ::
  "nat \<Rightarrow> server \<Rightarrow> github \<Rightarrow> kwargs \<Rightarrow> http_request list \<Rightarrow> (error + nat) option \<times> http_request list" where
  "subscribers fuel srv self kwargs sent =
     (let request = base_req self @ ''/subscribers''
      in len_of (get_all fuel srv self request kwargs sent))"

definition contributors ::
  "nat \<Rightarrow> server \<Rightarrow> github \<Rightarrow> kwargs \<Rightarrow> http_request list \<Rightarrow> (error + nat) option \<times> http_request list" where
  "contributors fuel srv self kwargs sent =
     (let request = base_req self @ ''/contributors''
      in len_of (get_all fuel srv self request kwargs sent))"

section \<open>The number of commits\<close>

text \<open>\<^verbatim>\<open>req.links['last']['url']\<close>.\<close>

definition links_last_url :: "response \<Rightarrow> error + string" where
  "links_last_url req =
     (case map_of (links req) ''last'' of
        None \<Rightarrow> Inl (KeyError ''last'')
      | Some l \<Rightarrow> (case map_of l ''url'' of None \<Rightarrow> Inl (KeyError ''url'') | Some u \<Rightarrow> Inr u))"

text \<open>
  \<^verbatim>\<open>re.search(r'page=[0-9]*$', s)\<close> and the text it matched: the leftmost place where
  \<^verbatim>\<open>page=\<close> and digits run to the end of the string, or to a newline that ends it.
\<close>

definition page_match_here :: "string \<Rightarrow> string option" where
  "page_match_here s =
     (if take 5 s = ''page=''
         \<and> dropWhile is_digit (drop 5 s) \<in> {[], [CHR 0x0A]}
      then Some (''page='' @ takeWhile is_digit (drop 5 s)) else None)"

fun re_search_page :: "string \<Rightarrow> string option" where
  "re_search_page [] = None"
| "re_search_page (c # cs) =
     (case page_match_here (c # cs) of Some m \<Rightarrow> Some m | None \<Rightarrow> re_search_page cs)"

text \<open>
  \<^verbatim>\<open>s.replace(old)\<close>: \<^verbatim>\<open>str.replace\<close> takes the old and the new text, and a call with one
  argument raises \<^verbatim>\<open>TypeError\<close>.
\<close>

definition str_replace1 :: "string \<Rightarrow> string \<Rightarrow> error + string" where
  "str_replace1 s old = Inl (TypeError ''replace expected at least 2 arguments, got 1'')"

text \<open>\<^verbatim>\<open>int(s)\<close> for a string of decimal digits; other text raises \<^verbatim>\<open>ValueError\<close>.\<close>

definition py_int :: "string \<Rightarrow> error + int" where
  "py_int s =
     (if s \<noteq> [] \<and> list_all is_digit s then Inr (num_val s)
      else Inl (ValueError (''invalid literal for int() with base 10: '' @ s)))"

text \<open>\<^verbatim>\<open>last_page.url()\<close>: \<^verbatim>\<open>url\<close> is a string, and calling a string raises \<^verbatim>\<open>TypeError\<close>.\<close>

definition str_call :: "string \<Rightarrow> error + json" where
  "str_call s = Inl (TypeError ''str object is not callable'')"

text \<open>\<^verbatim>\<open>Github.commit_count\<close> (lines 422 to 433), statement by statement.\<close>

definition commit_count ::
  "server \<Rightarrow> github \<Rightarrow> kwargs \<Rightarrow> http_request list \<Rightarrow> (error + int) \<times> http_request list" where
  "commit_count srv self kwargs sent =
     (let request = base_req self @ ''/commits''
      in case get_request srv self request kwargs sent of
           (Inl e, sent) \<Rightarrow> (Inl e, sent)
         | (Inr req, sent) \<Rightarrow>
       (case links_last_url req of
           Inl e \<Rightarrow> (Inl e, sent)
         | Inr last_url \<Rightarrow>
       (case re_search_page last_url of
           None \<Rightarrow> (Inl (RuntimeError (''Could not find page=[0-9]*$ in url: '' @ last_url)), sent)
         | Some grp \<Rightarrow>
       (case str_replace1 grp ''page='' of
           Inl e \<Rightarrow> (Inl e, sent)
         | Inr digits \<Rightarrow>
       (case py_int digits of
           Inl e \<Rightarrow> (Inl e, sent)
         | Inr num_pages \<Rightarrow>
       (case get_request srv self last_url kwargs sent of
           (Inl e, sent) \<Rightarrow> (Inl e, sent)
         | (Inr last_page, sent) \<Rightarrow>
       (case response_json req of
           Inl e \<Rightarrow> (Inl e, sent)
         | Inr j \<Rightarrow>
       (case py_len (Some j) of
           Inl e \<Rightarrow> (Inl e, sent)
         | Inr n \<Rightarrow>
       (case str_call (resp_url last_page) of
           Inl e \<Rightarrow> (Inl e, sent)
         | Inr u \<Rightarrow>
       (case py_len (Some u) of
           Inl e \<Rightarrow> (Inl e, sent)
         | Inr k \<Rightarrow> (Inr (int n * (num_pages - 1) + int k), sent)))))))))))"

section \<open>Commits by date\<close>

text \<open>
  The table \<^verbatim>\<open>out\<close>: one row per entry of \<^verbatim>\<open>date_iter\<close>, the date and its count in
  the column \<^verbatim>\<open>commits\<close>. \<^verbatim>\<open>out.at[date, 'commits'] += 1\<close> adds one in the rows
  labelled \<^verbatim>\<open>date\<close>.
\<close>

type_synonym table = "(date \<times> int) list"

definition new_table :: "date list \<Rightarrow> table" where
  "new_table date_iter = map (\<lambda>d. (d, 0)) date_iter"

definition at_incr :: "date \<Rightarrow> table \<Rightarrow> table" where
  "at_incr date out = map (\<lambda>(d, n). if d = date then (d, n + 1) else (d, n)) out"

text \<open>\<^verbatim>\<open>com['commit']['author']['date']\<close>, parsed, and its \<^verbatim>\<open>date()\<close>.\<close>

definition commit_date :: "json \<Rightarrow> error + date" where
  "commit_date com =
     (case py_getitem com ''commit'' of Inl e \<Rightarrow> Inl e | Inr c \<Rightarrow>
        (case py_getitem c ''author'' of Inl e \<Rightarrow> Inl e | Inr a \<Rightarrow>
           (case py_getitem a ''date'' of Inl e \<Rightarrow> Inl e | Inr c_date \<Rightarrow>
              (case strptime c_date of Inl e \<Rightarrow> Inl e | Inr c_date \<Rightarrow> Inr (dt_date c_date)))))"

text \<open>
  The inner loop \<^verbatim>\<open>for date in date_iter\<close> (lines 464 to 470) over the dates still to
  visit, with the variables \<^verbatim>\<open>out\<close> and \<^verbatim>\<open>stop\<close>.
\<close>

fun scan_dates :: "date \<Rightarrow> date list \<Rightarrow> table \<Rightarrow> bool \<Rightarrow> table \<times> bool" where
  "scan_dates c_date [] out stop = (out, stop)"
| "scan_dates c_date (date # dates) out stop =
     (if c_date = date then (at_incr date out, False)
      else if c_date > date then scan_dates c_date dates out False
      else scan_dates c_date dates out stop)"

text \<open>The body of the loop over the commits (lines 460 to 473).\<close>

definition commits_body :: "date list \<Rightarrow> bool \<Rightarrow> json \<Rightarrow> table \<Rightarrow> table step" where
  "commits_body date_iter search_all com out =
     (case commit_date com of
        Inl e \<Rightarrow> Throw e
      | Inr c_date \<Rightarrow>
         (let stop = True;
              (out, stop) = scan_dates c_date date_iter out stop
          in if stop \<and> \<not> search_all then Break out else Continue out))"

text \<open>\<^verbatim>\<open>Github.commits\<close>.\<close>

definition commits ::
  "nat \<Rightarrow> server \<Rightarrow> github \<Rightarrow> date list \<Rightarrow> bool \<Rightarrow> kwargs \<Rightarrow> http_request list
     \<Rightarrow> (error + table) option \<times> http_request list" where
  "commits fuel srv self date_iter search_all kwargs sent =
     (let out = new_table date_iter;
          request = base_req self @ ''/commits'';
          commit_iter = get_generator self request kwargs
      in case for_loop fuel srv (commits_body date_iter search_all) commit_iter out sent of
           (r, commit_iter, sent) \<Rightarrow> (r, sent))"

section \<open>Servers for concrete runs\<close>

text \<open>
  A response with status 200 and a JSON body, and a server that answers its \<open>n\<close>-th
  request with the \<open>n\<close>-th response of a list, whatever is asked, and with status 503 once
  the list is used up.
\<close>

definition ok_page :: "json \<Rightarrow> response" where
  "ok_page j = \<lparr>status_code = 200, reason = ''OK'', resp_text = [], resp_json = Some j,
                links = [], resp_url = []\<rparr>"

definition unavailable :: response where
  "unavailable = \<lparr>status_code = 503, reason = ''Service Unavailable'', resp_text = ''down'',
                  resp_json = None, links = [], resp_url = []\<rparr>"

definition scripted :: "response list \<Rightarrow> server" where
  "scripted rs sent =
     (if 0 < length sent \<and> length sent \<le> length rs then rs ! (length sent - 1) else unavailable)"

definition no_kwargs :: kwargs where
  "no_kwargs = \<lparr>kw_headers = None, kw_params = None, kw_rest = []\<rparr>"

definition client :: github where
  "client = \<lparr>base_req = BASE_REQ ''NREL'' ''reV'', token = Some ''abc''\<rparr>"

section \<open>Notions used to state the properties\<close>

text \<open>
  \<open>serves srv sent r pages\<close>: when the requests \<open>sent\<close> have been made, the server
  answers the request \<open>r\<close>, made again and again, with status 200 and the bodies
  \<open>pages\<close>, in this order.
\<close>

fun serves :: "server \<Rightarrow> http_request list \<Rightarrow> http_request \<Rightarrow> json list \<Rightarrow> bool" where
  "serves srv sent r [] = True"
| "serves srv sent r (p # ps) =
     (status_code (srv (sent @ [r])) = 200 \<and> resp_json (srv (sent @ [r])) = Some p
        \<and> serves srv (sent @ [r]) r ps)"

text \<open>The value of \<^verbatim>\<open>params['page']\<close> when it is an integer.\<close>

definition page_of :: "params \<Rightarrow> int option" where
  "page_of params = (case map_of params ''page'' of Some (PInt n) \<Rightarrow> Some n | _ \<Rightarrow> None)"

text \<open>
  The list pages merged onto what has been accumulated (\<open>None\<close> for Python's
  \<^verbatim>\<open>None\<close>).
\<close>

fun merge :: "json list option \<Rightarrow> json list list \<Rightarrow> json list option" where
  "merge acc [] = acc"
| "merge None (p # ps) = merge (Some p) ps"
| "merge (Some xs) (p # ps) = merge (Some (xs @ p)) ps"

text \<open>The request a generator sends, the same at every turn of its loop.\<close>

definition req_of :: "generator \<Rightarrow> http_request" where
  "req_of g = \<lparr>req_url = gen_request g, req_headers = gen_headers g, req_kwargs = gen_kwargs g\<rparr>"

text \<open>
  A \<^verbatim>\<open>for\<close> loop over a list, the reference for the loop over a generator: it ends
  because the list is exhausted, because the body breaks, or because it raises.
\<close>

datatype 's ended = Exhausted 's | Broke 's | Threw error

fun for_list :: "('a \<Rightarrow> 's \<Rightarrow> 's step) \<Rightarrow> 'a list \<Rightarrow> 's \<Rightarrow> 's ended" where
  "for_list body [] s = Exhausted s"
| "for_list body (x # xs) s =
     (case body x s of
        Continue s \<Rightarrow> for_list body xs s
      | Break s \<Rightarrow> Broke s
      | Throw e \<Rightarrow> Threw e)"

fun result_of :: "'s ended \<Rightarrow> error + 's" where
  "result_of (Exhausted s) = Inr s"
| "result_of (Broke s) = Inr s"
| "result_of (Threw e) = Inl e"

fun exhausted :: "'s ended \<Rightarrow> bool" where
  "exhausted (Exhausted s) = True"
| "exhausted (Broke s) = False"
| "exhausted (Threw e) = False"

text \<open>
  For the commits by date: a commit date is too early when it is strictly before every
  date asked for; the commits that count are those before the first one that is too
  early (all of them when \<^verbatim>\<open>search_all\<close> is set); and the table they should give has,
  for each date asked for, the number of counted commits of that date.
\<close>

definition too_early :: "date \<Rightarrow> date list \<Rightarrow> bool" where
  "too_early c date_iter = list_all (\<lambda>d. c < d) date_iter"

definition scanned :: "bool \<Rightarrow> date list \<Rightarrow> date list \<Rightarrow> date list" where
  "scanned search_all date_iter ds = takeWhile (\<lambda>c. search_all \<or> \<not> too_early c date_iter) ds"

definition counts_table :: "date list \<Rightarrow> date list \<Rightarrow> table" where
  "counts_table date_iter cs = map (\<lambda>d. (d, int (count_list cs d))) date_iter"

text \<open>A commit record with the author date \<open>s\<close>, for concrete runs.\<close>

definition commit_at :: "string \<Rightarrow> json" where
  "commit_at s = JDict [(''commit'', JDict [(''author'', JDict [(''date'', JStr s)])])]"

section \<open>Properties\<close>

subsection \<open>The page counter and the merging loop\<close>


lemma page_incr_ok:
  "page_of params = Some k \<Longrightarrow> page_incr params = Inr (AList.update ''page'' (PInt (k + 1)) params)"
  by (auto simp: page_of_def page_incr_def split: option.splits pval.splits)

lemma page_of_update [simp]: "page_of (AList.update ''page'' (PInt k) params) = Some k"
  by (simp add: page_of_def update_conv')

lemma page_of_pop_params [simp]: "page_of (fst (pop_params kw)) = Some 0"
  by (simp add: pop_params_def Let_def)

lemma py_any_Nil: "py_any (JList []) = Inr False"
  by simp

lemma get_all_loop_sent:
  "\<exists>n. snd (get_all_loop fuel srv request headers kwargs params out sent)
     = sent @ replicate n \<lparr>req_url = request, req_headers = headers, req_kwargs = kwargs\<rparr>"
proof (induction fuel arbitrary: params out sent)
  case 0
  show ?case by (rule exI [of _ 0]) simp
next
  case (Suc fuel)
  let ?r = "\<lparr>req_url = request, req_headers = headers, req_kwargs = kwargs\<rparr>"
  have one: "sent @ [?r] = sent @ replicate 1 ?r" by simp
  have more: "\<And>p out. \<exists>n. snd (get_all_loop fuel srv request headers kwargs p out (sent @ [?r])) = sent @ replicate n ?r"
  proof -
    fix p out
    from Suc.IH [of p out "sent @ [?r]"] obtain n where
      "snd (get_all_loop fuel srv request headers kwargs p out (sent @ [?r])) = (sent @ [?r]) @ replicate n ?r" by blast
    then have "snd (get_all_loop fuel srv request headers kwargs p out (sent @ [?r])) = sent @ replicate (Suc n) ?r"
      by (simp add: replicate_app_Cons_same)
    then show "\<exists>n. snd (get_all_loop fuel srv request headers kwargs p out (sent @ [?r])) = sent @ replicate n ?r" by blast
  qed
  have zero: "\<exists>n. sent = sent @ replicate n ?r" by (rule exI [of _ 0]) simp
  have single: "\<exists>n. sent @ [?r] = sent @ replicate n ?r" by (rule exI [of _ 1]) simp
  show ?case
    using more zero single
    by (auto simp: requests_get_def Let_def split: sum.splits option.splits json.splits if_splits)
qed



lemma merge_Some: "merge (Some xs) pages = Some (xs @ concat pages)"
  by (induction pages arbitrary: xs) simp_all

lemma merge_None: "pages \<noteq> [] \<Longrightarrow> merge None pages = Some (concat pages)"
  by (cases pages) (simp_all add: merge_Some)

lemma get_all_loop_final:
  assumes "page_of params = Some k"
    and "serves srv sent \<lparr>req_url = request, req_headers = headers, req_kwargs = kwargs\<rparr> [final]"
    and "py_any final = Inr False"
  shows "get_all_loop (Suc fuel) srv request headers kwargs params out sent
           = (Some (Inr out), sent @ [\<lparr>req_url = request, req_headers = headers, req_kwargs = kwargs\<rparr>])"
  using assms by (simp add: page_incr_ok requests_get_def response_json_def Let_def)

lemma get_all_loop_page:
  assumes "page_of params = Some k"
    and "serves srv sent \<lparr>req_url = request, req_headers = headers, req_kwargs = kwargs\<rparr> [JList p]"
    and "list_ex truthy p"
  shows "get_all_loop (Suc fuel) srv request headers kwargs params (map_option JList acc) sent
           = get_all_loop fuel srv request headers kwargs (AList.update ''page'' (PInt (k + 1)) params)
               (map_option JList (merge acc [p]))
               (sent @ [\<lparr>req_url = request, req_headers = headers, req_kwargs = kwargs\<rparr>])"
  using assms by (cases acc) (simp_all add: page_incr_ok requests_get_def response_json_def Let_def)

lemma get_all_loop_pages:
  assumes "page_of params = Some k"
    and "serves srv sent \<lparr>req_url = request, req_headers = headers, req_kwargs = kwargs\<rparr>
           (map JList pages @ [final])"
    and "py_any final = Inr False"
    and "list_all (list_ex truthy) pages"
    and "length pages < fuel"
  shows "get_all_loop fuel srv request headers kwargs params (map_option JList acc) sent
           = (Some (Inr (map_option JList (merge acc pages))),
              sent @ replicate (Suc (length pages)) \<lparr>req_url = request, req_headers = headers, req_kwargs = kwargs\<rparr>)"
  using assms
proof (induction pages arbitrary: params k sent acc fuel)
  case Nil
  then obtain n where "fuel = Suc n" by (cases fuel) auto
  with Nil show ?case by (simp add: get_all_loop_final del: get_all_loop.simps)
next
  case (Cons p ps)
  let ?r = "\<lparr>req_url = request, req_headers = headers, req_kwargs = kwargs\<rparr>"
  from Cons.prems obtain n where n: "fuel = Suc n" "length ps < n" by (cases fuel) auto
  have step: "get_all_loop (Suc n) srv request headers kwargs params (map_option JList acc) sent
      = get_all_loop n srv request headers kwargs (AList.update ''page'' (PInt (k + 1)) params)
          (map_option JList (merge acc [p])) (sent @ [?r])"
    using Cons.prems by (intro get_all_loop_page) simp_all
  have rest: "get_all_loop n srv request headers kwargs (AList.update ''page'' (PInt (k + 1)) params)
          (map_option JList (merge acc [p])) (sent @ [?r])
      = (Some (Inr (map_option JList (merge (merge acc [p]) ps))), (sent @ [?r]) @ replicate (Suc (length ps)) ?r)"
    using Cons.prems n by (intro Cons.IH [where k = "k + 1"]) simp_all
  have m: "merge (merge acc [p]) ps = merge acc (p # ps)" by (cases acc) simp_all
  show ?case unfolding n step rest m by (simp add: replicate_app_Cons_same)
qed


subsection \<open>The generator as a stream of entries\<close>


declare for_loop.simps [simp del]

lemma req_of_simps [simp]:
  "req_of (g\<lparr>gen_entries := es\<rparr>) = req_of g"
  "req_of (g\<lparr>gen_params := ps\<rparr>) = req_of g"
  "req_of (g\<lparr>gen_done := d\<rparr>) = req_of g"
  by (simp_all add: req_of_def)

lemma for_list_append:
  "for_list body (xs @ ys) s =
     (case for_list body xs s of Exhausted s' \<Rightarrow> for_list body ys s' | Broke s' \<Rightarrow> Broke s' | Threw e \<Rightarrow> Threw e)"
  by (induction xs arbitrary: s) (simp_all split: step.splits)

lemma gen_next_entry:
  "\<not> gen_done g \<Longrightarrow> gen_entries g = x # xs \<Longrightarrow> gen_next srv g sent = (Yield x, g\<lparr>gen_entries := xs\<rparr>, sent)"
  by (simp add: gen_next_def)

lemma gen_next_page:
  assumes "\<not> gen_done g" "gen_entries g = []" "page_of (gen_params g) = Some k"
    and "serves srv sent (req_of g) [JList (x # xs)]" "list_ex truthy (x # xs)"
  shows "gen_next srv g sent =
           (Yield x, g\<lparr>gen_params := AList.update ''page'' (PInt (k + 1)) (gen_params g), gen_entries := xs\<rparr>,
            sent @ [req_of g])"
  using assms by (simp add: gen_next_def page_incr_ok requests_get_def response_json_def Let_def req_of_def)

lemma gen_next_final:
  assumes "\<not> gen_done g" "gen_entries g = []" "page_of (gen_params g) = Some k"
    and "serves srv sent (req_of g) [final]" "py_any final = Inr False"
  shows "gen_next srv g sent =
           (StopIteration, g\<lparr>gen_params := AList.update ''page'' (PInt (k + 1)) (gen_params g), gen_done := True\<rparr>,
            sent @ [req_of g])"
  using assms by (simp add: gen_next_def page_incr_ok requests_get_def response_json_def Let_def req_of_def)




text \<open>The entries of the current page are consumed without a request.\<close>
lemma for_loop_entries:
  assumes "\<not> gen_done g" "gen_entries g = b"
  shows "fst (for_loop (length b + fuel) srv body g s sent) =
           (case for_list body b s of
              Exhausted s' \<Rightarrow> fst (for_loop fuel srv body (g\<lparr>gen_entries := []\<rparr>) s' sent)
            | Broke s' \<Rightarrow> Some (Inr s')
            | Threw e \<Rightarrow> Some (Inl e))"
  using assms
proof (induction b arbitrary: g s)
  case Nil
  then have "g\<lparr>gen_entries := []\<rparr> = g" by simp
  then show ?case by simp
next
  case (Cons x xs)
  have nx: "gen_next srv g sent = (Yield x, g\<lparr>gen_entries := xs\<rparr>, sent)"
    using Cons.prems by (simp add: gen_next_entry)
  show ?case
  proof (cases "body x s")
    case (Continue s1)
    have "fst (for_loop (length xs + fuel) srv body (g\<lparr>gen_entries := xs\<rparr>) s1 sent) =
           (case for_list body xs s1 of
              Exhausted s' \<Rightarrow> fst (for_loop fuel srv body (g\<lparr>gen_entries := xs\<rparr>\<lparr>gen_entries := []\<rparr>) s' sent)
            | Broke s' \<Rightarrow> Some (Inr s')
            | Threw e \<Rightarrow> Some (Inl e))"
      using Cons.prems by (intro Cons.IH) simp_all
    then show ?thesis using Continue nx by (simp add: for_loop.simps split: ended.splits)
  next
    case (Break s1)
    then show ?thesis using nx by (simp add: for_loop.simps)
  next
    case (Throw e)
    then show ?thesis using nx by (simp add: for_loop.simps)
  qed
qed

text \<open>Fetching a page is the same as having it as the current page.\<close>
lemma for_loop_fetch:
  assumes "\<not> gen_done g" "gen_entries g = []" "page_of (gen_params g) = Some k"
    and "serves srv sent (req_of g) [JList p]" "list_ex truthy p"
  shows "fst (for_loop fuel srv body g s sent) =
         fst (for_loop fuel srv body
               (g\<lparr>gen_params := AList.update ''page'' (PInt (k + 1)) (gen_params g), gen_entries := p\<rparr>) s
               (sent @ [req_of g]))"
proof (cases fuel)
  case 0
  then show ?thesis by (simp add: for_loop.simps)
next
  case (Suc n)
  from assms(5) obtain x xs where p: "p = x # xs" by (cases p) auto
  let ?g = "g\<lparr>gen_params := AList.update ''page'' (PInt (k + 1)) (gen_params g), gen_entries := p\<rparr>"
  have a: "gen_next srv g sent = (Yield x, ?g\<lparr>gen_entries := xs\<rparr>, sent @ [req_of g])"
    using assms p by (simp add: gen_next_page)
  have b: "gen_next srv ?g (sent @ [req_of g]) = (Yield x, ?g\<lparr>gen_entries := xs\<rparr>, sent @ [req_of g])"
    using assms p by (simp add: gen_next_entry)
  show ?thesis unfolding Suc for_loop.simps a b by simp
qed




lemma for_loop_stream:
  assumes "\<not> gen_done g" "page_of (gen_params g) = Some k"
    and "serves srv sent (req_of g) (map JList pages @ tail)"
    and "list_all (list_ex truthy) pages"
    and "length (gen_entries g @ concat pages) < fuel"
    and "exhausted (for_list body (gen_entries g @ concat pages) s)
           \<Longrightarrow> tail \<noteq> [] \<and> py_any (hd tail) = Inr False"
  shows "fst (for_loop fuel srv body g s sent)
           = Some (result_of (for_list body (gen_entries g @ concat pages) s))"
  using assms
proof (induction pages arbitrary: g k sent fuel s)
  case Nil
  define b where "b = gen_entries g"
  from Nil.prems have "length b < fuel" by (simp add: b_def)
  then obtain n where n: "fuel = length b + Suc n" by (auto simp: less_iff_Suc_add)
  have e: "fst (for_loop (length b + Suc n) srv body g s sent) =
           (case for_list body b s of
              Exhausted s' \<Rightarrow> fst (for_loop (Suc n) srv body (g\<lparr>gen_entries := []\<rparr>) s' sent)
            | Broke s' \<Rightarrow> Some (Inr s')
            | Threw e \<Rightarrow> Some (Inl e))"
    using Nil.prems b_def by (intro for_loop_entries) simp_all
  show ?case
  proof (cases "for_list body b s")
    case (Exhausted s')
    with Nil.prems b_def obtain final rest where t: "tail = final # rest" "py_any final = Inr False"
      by (cases tail) auto
    have "gen_next srv (g\<lparr>gen_entries := []\<rparr>) sent =
           (StopIteration, g\<lparr>gen_entries := []\<rparr>\<lparr>gen_params := AList.update ''page'' (PInt (k + 1)) (gen_params (g\<lparr>gen_entries := []\<rparr>)), gen_done := True\<rparr>,
            sent @ [req_of (g\<lparr>gen_entries := []\<rparr>)])"
      using Nil.prems t by (intro gen_next_final) simp_all
    then have "fst (for_loop (Suc n) srv body (g\<lparr>gen_entries := []\<rparr>) s' sent) = Some (Inr s')"
      by (simp add: for_loop.simps)
    with e Exhausted show ?thesis unfolding n by (simp add: b_def)
  next
    case (Broke s')
    with e show ?thesis unfolding n by (simp add: b_def)
  next
    case (Threw e')
    with e show ?thesis unfolding n by (simp add: b_def)
  qed
next
  case (Cons p ps)
  define b where "b = gen_entries g"
  define n where "n = fuel - length b"
  from Cons.prems have "length b + length (p @ concat ps) < fuel" by (simp add: b_def)
  then have n: "fuel = length b + n" "length (p @ concat ps) < n" by (simp_all add: n_def)
  have e: "fst (for_loop (length b + n) srv body g s sent) =
           (case for_list body b s of
              Exhausted s' \<Rightarrow> fst (for_loop n srv body (g\<lparr>gen_entries := []\<rparr>) s' sent)
            | Broke s' \<Rightarrow> Some (Inr s')
            | Threw e \<Rightarrow> Some (Inl e))"
    using Cons.prems b_def by (intro for_loop_entries) simp_all
  show ?case
  proof (cases "for_list body b s")
    case (Exhausted s')
    let ?g0 = "g\<lparr>gen_entries := []\<rparr>"
    let ?g1 = "?g0\<lparr>gen_params := AList.update ''page'' (PInt (k + 1)) (gen_params ?g0), gen_entries := p\<rparr>"
    have f: "fst (for_loop n srv body ?g0 s' sent) = fst (for_loop n srv body ?g1 s' (sent @ [req_of ?g0]))"
      using Cons.prems by (intro for_loop_fetch) simp_all
    have ex: "exhausted (for_list body (p @ concat ps) s') \<Longrightarrow> tail \<noteq> [] \<and> py_any (hd tail) = Inr False"
      using Cons.prems(6) Exhausted by (simp add: b_def [symmetric] for_list_append)
    have r: "fst (for_loop n srv body ?g1 s' (sent @ [req_of ?g0]))
           = Some (result_of (for_list body (gen_entries ?g1 @ concat ps) s'))"
      using Cons.prems n ex by (intro Cons.IH [where k = "k + 1"]) simp_all
    show ?thesis unfolding n e using Exhausted f r
      by (simp add: b_def [symmetric] for_list_append)
  next
    case (Broke s')
    with e show ?thesis unfolding n by (simp add: b_def [symmetric] for_list_append)
  next
    case (Threw e')
    with e show ?thesis unfolding n by (simp add: b_def [symmetric] for_list_append)
  qed
qed



subsection \<open>The requests that are sent\<close>

lemma pop_params_kwargs: "snd (pop_params kw) = kw\<lparr>kw_params := None\<rparr>"
  by (simp add: pop_params_def Let_def)

lemma pop_headers_kwargs: "snd (pop_headers self kw) = kw\<lparr>kw_headers := None\<rparr>"
  by (simp add: pop_headers_def Let_def)

lemma req_of_get_generator:
  "req_of (get_generator self request kwargs) =
     \<lparr>req_url = request, req_headers = fst (pop_headers self kwargs),
      req_kwargs = kwargs\<lparr>kw_headers := None, kw_params := None\<rparr>\<rparr>"
  by (simp add: req_of_def get_generator_def pop_headers_def pop_params_def Let_def)

lemma get_all_sent:
  "\<exists>n. snd (get_all fuel srv self request kwargs sent)
     = sent @ replicate n (req_of (get_generator self request kwargs))"
  using get_all_loop_sent [of fuel srv request "fst (pop_headers self kwargs)"
      "kwargs\<lparr>kw_headers := None, kw_params := None\<rparr>" "fst (pop_params (snd (pop_headers self kwargs)))" None sent]
  by (simp add: get_all_def req_of_get_generator pop_params_kwargs pop_headers_kwargs split_beta)

lemma gen_next_sent:
  assumes "gen_next srv g sent = (ev, g', sent')"
  shows "req_of g' = req_of g \<and> (sent' = sent \<or> sent' = sent @ [req_of g])"
  using assms
  by (auto simp: gen_next_def requests_get_def Let_def req_of_def
      split: if_splits list.splits sum.splits json.splits)

lemma for_loop_sent:
  "\<exists>n. snd (snd (for_loop fuel srv body g s sent)) = sent @ replicate n (req_of g)"
proof (induction fuel arbitrary: g s sent)
  case 0
  show ?case by (rule exI [of _ 0]) (simp add: for_loop.simps)
next
  case (Suc fuel)
  obtain ev g' sent' where nx: "gen_next srv g sent = (ev, g', sent')"
    by (cases "gen_next srv g sent") auto
  from gen_next_sent [OF nx] have rq: "req_of g' = req_of g"
    and st: "sent' = sent \<or> sent' = sent @ [req_of g]" by simp_all
  from st obtain m where m: "sent' = sent @ replicate m (req_of g)"
  proof
    assume "sent' = sent" then have "sent' = sent @ replicate 0 (req_of g)" by simp
    then show ?thesis using that by blast
  next
    assume "sent' = sent @ [req_of g]" then have "sent' = sent @ replicate 1 (req_of g)" by simp
    then show ?thesis using that by blast
  qed
  have here: "\<exists>n. sent' = sent @ replicate n (req_of g)" using m by blast
  have later: "\<And>s1. \<exists>n. snd (snd (for_loop fuel srv body g' s1 sent')) = sent @ replicate n (req_of g)"
  proof -
    fix s1
    from Suc.IH [of g' s1 sent'] obtain n where
      "snd (snd (for_loop fuel srv body g' s1 sent')) = sent' @ replicate n (req_of g')" by blast
    then have "snd (snd (for_loop fuel srv body g' s1 sent')) = sent @ replicate (m + n) (req_of g)"
      by (simp add: m rq replicate_add)
    then show "\<exists>n. snd (snd (for_loop fuel srv body g' s1 sent')) = sent @ replicate n (req_of g)" by blast
  qed
  show ?case
    using here later nx by (auto simp: for_loop.simps split: gen_event.splits step.splits)
qed

text \<open>
  Against a server whose answer depends on the request only, the same page comes back at
  every turn, and the merging loop does not end once that page has a true element.
\<close>

lemma get_all_loop_same_page_forever:
  assumes "\<And>s. srv (s @ [\<lparr>req_url = request, req_headers = headers, req_kwargs = kwargs\<rparr>]) = resp"
    and "status_code resp = 200" "resp_json resp = Some (JList p)" "list_ex truthy p"
    and "page_of params = Some k"
  shows "fst (get_all_loop fuel srv request headers kwargs params (map_option JList acc) sent) = None"
  using assms(5)
proof (induction fuel arbitrary: params k acc sent)
  case 0
  show ?case by simp
next
  case (Suc fuel)
  let ?r = "\<lparr>req_url = request, req_headers = headers, req_kwargs = kwargs\<rparr>"
  have "serves srv sent ?r [JList p]" using assms(1-3) by simp
  then have "get_all_loop (Suc fuel) srv request headers kwargs params (map_option JList acc) sent
      = get_all_loop fuel srv request headers kwargs (AList.update ''page'' (PInt (k + 1)) params)
          (map_option JList (merge acc [p])) (sent @ [?r])"
    using Suc.prems assms(4) by (intro get_all_loop_page)
  then show ?case using Suc.IH [of "AList.update ''page'' (PInt (k + 1)) params" "k + 1"] by simp
qed

lemma get_all_same_page_forever:
  assumes "\<And>s. srv (s @ [req_of (get_generator self request kwargs)]) = resp"
    and "status_code resp = 200" "resp_json resp = Some (JList p)" "list_ex truthy p"
  shows "fst (get_all fuel srv self request kwargs sent) = None"
proof -
  have "fst (get_all_loop fuel srv request (fst (pop_headers self kwargs))
          (kwargs\<lparr>kw_headers := None, kw_params := None\<rparr>)
          (fst (pop_params (snd (pop_headers self kwargs)))) (map_option JList None) sent) = None"
    using assms by (intro get_all_loop_same_page_forever [where k = 0]) (simp_all add: req_of_get_generator)
  then show ?thesis
    by (simp add: get_all_def pop_params_kwargs pop_headers_kwargs split_beta)
qed

text \<open>
  C1 (fails on the code). The claim: \<^verbatim>\<open>get_generator\<close> and \<^verbatim>\<open>get_all\<close> send GET
  requests whose \<^verbatim>\<open>page\<close> parameter starts at 1 and grows by one, together with the
  caller's query parameters, until a terminating page arrives. The code takes
  \<^verbatim>\<open>params\<close> out of the keyword arguments, counts \<^verbatim>\<open>params['page']\<close> up, and calls
  \<^verbatim>\<open>requests.get(request, headers=headers, **kwargs)\<close> without it: with the caller's
  parameters \<^verbatim>\<open>{'state': 'closed'}\<close> and a server that answers one record and then an
  empty list, both requests of either operation carry no query parameters at all.
\<close>

theorem page_parameter_not_sent:
  "map (kw_params \<circ> req_kwargs)
     (snd (get_all 5 (scripted [ok_page (JList [JInt 1]), ok_page (JList [])]) client ''u''
            (no_kwargs\<lparr>kw_params := Some [(''state'', PStr ''closed'')]\<rparr>) []))
     = [None, None]
   \<and> map (kw_params \<circ> req_kwargs)
     (snd (snd (collect 5 (scripted [ok_page (JList [JInt 1]), ok_page (JList [])])
            (get_generator client ''u'' (no_kwargs\<lparr>kw_params := Some [(''state'', PStr ''closed'')]\<rparr>)) [])))
     = [None, None]"
  by code_simp

subsection \<open>Construction of the client\<close>

lemma init_raises_iff: "(\<exists>e. init getenv owner repo tok = Inl e) \<longleftrightarrow> tok = None"
  by (simp add: init_def Let_def)

lemma init_explicit_token:
  "init getenv owner repo (Some t) = Inr \<lparr>base_req = BASE_REQ owner repo, token = Some t\<rparr>"
  by (simp add: init_def)

text \<open>
  C3 (fails on the code). The claim: a client made without an explicit token succeeds
  when \<^verbatim>\<open>GITHUB_TOKEN\<close> is set and uses its value, and construction raises exactly when
  both the token and the variable are absent. The code tests the argument \<^verbatim>\<open>token\<close>
  a second time where the attribute \<^verbatim>\<open>self.token\<close> holds the value read from the
  environment, so with \<^verbatim>\<open>GITHUB_TOKEN=secret\<close> and no explicit token the
  constructor raises \<^verbatim>\<open>OSError\<close>.
\<close>

theorem init_ignores_environment:
  "init (Map.empty(''GITHUB_TOKEN'' \<mapsto> ''secret'')) ''NREL'' ''reV'' None
     = Inl (OSError ''Could not find environment variable \"GITHUB_TOKEN\".'')"
  by (simp add: init_def)

subsection \<open>Termination of the pagination and the shape of a page\<close>

lemma py_any_not_iterable:
  "(\<exists>e. py_any j = Inl e) \<longleftrightarrow> j = JNull \<or> (\<exists>b. j = JBool b) \<or> (\<exists>n. j = JInt n)"
  by (cases j) auto

lemma py_any_empty_string: "py_any (JStr []) = Inr False"
  by simp

text \<open>
  A turn of the generator that fetches a page with status 200 ends the generator normally
  exactly when \<^verbatim>\<open>any\<close> finds no true element in the page, and raises \<^verbatim>\<open>TypeError\<close> on
  every other page that is not a list.
\<close>

lemma gen_next_stops_iff:
  assumes "\<not> gen_done g" "gen_entries g = []" "page_of (gen_params g) = Some k"
    and "status_code (srv (sent @ [req_of g])) = 200"
    and "resp_json (srv (sent @ [req_of g])) = Some temp"
  shows "fst (gen_next srv g sent) = StopIteration \<longleftrightarrow> py_any temp = Inr False"
  using assms
  by (cases temp)
     (auto simp: gen_next_def page_incr_ok requests_get_def response_json_def Let_def req_of_def
           split: list.splits)

lemma gen_next_type_error:
  assumes "\<not> gen_done g" "gen_entries g = []" "page_of (gen_params g) = Some k"
    and "status_code (srv (sent @ [req_of g])) = 200"
    and "resp_json (srv (sent @ [req_of g])) = Some temp"
    and "py_any temp \<noteq> Inr False" "\<forall>ys. temp \<noteq> JList ys"
  shows "\<exists>m. fst (gen_next srv g sent) = Raise (TypeError m)"
  using assms
  by (cases temp)
     (auto simp: gen_next_def page_incr_ok requests_get_def response_json_def Let_def req_of_def)


lemma get_all_first_page_empty:
  assumes "serves srv sent (req_of (get_generator self request kwargs)) [final]"
    and "py_any final = Inr False"
  shows "fst (get_all (Suc fuel) srv self request kwargs sent) = Some (Inr None)"
proof -
  have "get_all_loop (Suc fuel) srv request (fst (pop_headers self kwargs))
          (kwargs\<lparr>kw_headers := None, kw_params := None\<rparr>)
          (fst (pop_params (snd (pop_headers self kwargs)))) None sent
        = (Some (Inr None), sent @ [\<lparr>req_url = request, req_headers = fst (pop_headers self kwargs),
              req_kwargs = kwargs\<lparr>kw_headers := None, kw_params := None\<rparr>\<rparr>])"
    using assms by (intro get_all_loop_final [where k = 0]) (simp_all add: req_of_get_generator)
  then show ?thesis
    by (simp add: get_all_def pop_params_kwargs pop_headers_kwargs split_beta)
qed


text \<open>
  C4 (fails on the code). The claim: the accumulation of \<^verbatim>\<open>get_generator\<close> and
  \<^verbatim>\<open>get_all\<close> stops exactly when a page has no true element, and a page that is
  neither a list nor a mapping raises a type error. In \<^verbatim>\<open>get_all\<close> the first page that
  passes \<^verbatim>\<open>any\<close> is stored by \<^verbatim>\<open>out = temp\<close> before any test of its type: the JSON
  string \<^verbatim>\<open>"abc"\<close> followed by an empty list is returned as the result, with no error.
  The empty test also comes before the type test, so the JSON string \<^verbatim>\<open>""\<close> ends the
  generator silently.
\<close>

theorem first_page_not_type_checked:
  "fst (get_all 5 (scripted [ok_page (JStr ''abc''), ok_page (JList [])]) client ''u'' no_kwargs [])
     = Some (Inr (Some (JStr ''abc'')))
   \<and> fst (collect 5 (scripted [ok_page (JStr [])]) (get_generator client ''u'' no_kwargs) [])
     = Some (Inr [])"
  by code_simp

subsection \<open>Issues and pull requests\<close>

lemma lifetime_example:
  "lifetime_body ''closed''
     (JDict [(''created_at'', JStr ''2024-01-01T00:00:00Z''),
             (''closed_at'', JStr ''2024-01-03T12:00:00Z'')]) (now, [])
   = Continue (\<lparr>dt_year = 2024, dt_month = 1, dt_day = 3, dt_hour = 12, dt_minute = 0,
                 dt_second = 0, dt_microsecond = 0\<rparr>, [5 / 2])"
  by code_simp

lemma issues_pulls_never_returns:
  "fst (issues_pulls fuel srv self now option state kwargs sent) \<noteq> Some (Inr out)"
  by (simp add: issues_pulls_def generator_len_def Let_def split: prod.splits option.splits sum.splits)


text \<open>
  C2 (fails on the code). The claim: \<^verbatim>\<open>_issues_pulls\<close> computes every item's lifetime
  in days and returns the number of items with the mean and the median of the lifetimes.
  The lifetimes are computed as claimed (\<open>lifetime_example\<close>: 2.5 days), but the result
  is built with \<^verbatim>\<open>len(items)\<close> where \<^verbatim>\<open>items\<close> is the generator, which has no length:
  for one closed issue the call raises \<^verbatim>\<open>TypeError\<close>, and by
  \<open>issues_pulls_never_returns\<close> no call returns a result.
\<close>

theorem issues_pulls_raises:
  "fst (issues_pulls 5
         (scripted [ok_page (JList [JDict [(''created_at'', JStr ''2024-01-01T00:00:00Z''),
                                           (''closed_at'', JStr ''2024-01-03T12:00:00Z'')]]),
                    ok_page (JList [])])
         client now ''issues'' ''closed'' no_kwargs [])
     = Some (Inl (TypeError ''object of type generator has no len()''))"
  by code_simp

subsection \<open>Counts\<close>

text \<open>
  C6 (fails on the code). The claim: \<^verbatim>\<open>forks\<close>, \<^verbatim>\<open>stargazers\<close>, \<^verbatim>\<open>subscribers\<close> and
  \<^verbatim>\<open>contributors\<close> return the number of merged records, 0 when every page is empty.
  \<^verbatim>\<open>get_all\<close> starts from \<^verbatim>\<open>out = None\<close> and returns it when the first page is empty
  (\<open>get_all_first_page_empty\<close>), and \<^verbatim>\<open>len(None)\<close> raises \<^verbatim>\<open>TypeError\<close>. With
  at least one page of records the count is right (\<open>forks_counts_records\<close>).
\<close>

theorem count_of_no_records_raises:
  "fst (forks 5 (scripted [ok_page (JList [])]) client no_kwargs [])
     = Some (Inl (TypeError ''object of type NoneType has no len()''))
   \<and> fst (stargazers 5 (scripted [ok_page (JList [])]) client no_kwargs [])
     = Some (Inl (TypeError ''object of type NoneType has no len()''))
   \<and> fst (subscribers 5 (scripted [ok_page (JList [])]) client no_kwargs [])
     = Some (Inl (TypeError ''object of type NoneType has no len()''))
   \<and> fst (contributors 5 (scripted [ok_page (JList [])]) client no_kwargs [])
     = Some (Inl (TypeError ''object of type NoneType has no len()''))"
  by code_simp

lemma commit_count_never_returns:
  "fst (commit_count srv self kwargs sent) \<noteq> Inr n"
  by (simp add: commit_count_def str_replace1_def Let_def split: prod.splits option.splits sum.splits)


text \<open>
  C5 (fails on the code). The claim: \<^verbatim>\<open>commit_count\<close> reads the number of the last
  page from the \<^verbatim>\<open>last\<close> link, fetches that page and returns
  \<^verbatim>\<open>items_per_page * (last_page - 1) + items_in_last_page\<close>. With a \<^verbatim>\<open>last\<close> link that
  ends in \<^verbatim>\<open>page=3\<close> the code calls \<^verbatim>\<open>match.group().replace('page=')\<close>, one argument
  short, and raises \<^verbatim>\<open>TypeError\<close> before the last page is fetched; by
  \<open>commit_count_never_returns\<close> no call returns a number.
\<close>

theorem commit_count_raises:
  "fst (commit_count
         (scripted [ok_page (JList [JInt 1, JInt 2])
                      \<lparr>links := [(''last'', [(''url'', ''https://api.github.com/repositories/1/commits?page=3'')])]\<rparr>,
                    ok_page (JList [JInt 1])])
         client no_kwargs [])
     = Inl (TypeError ''replace expected at least 2 arguments, got 1'')"
  by code_simp

subsection \<open>A run of pages, whatever ends it\<close>

lemma get_all_loop_prefix:
  assumes "page_of params = Some k"
    and "serves srv sent \<lparr>req_url = request, req_headers = headers, req_kwargs = kwargs\<rparr> (map JList pages)"
    and "list_all (list_ex truthy) pages"
  shows "\<exists>params'. page_of params' = Some (k + int (length pages)) \<and>
           get_all_loop (length pages + fuel) srv request headers kwargs params (map_option JList acc) sent
           = get_all_loop fuel srv request headers kwargs params' (map_option JList (merge acc pages))
               (sent @ replicate (length pages) \<lparr>req_url = request, req_headers = headers, req_kwargs = kwargs\<rparr>)"
  using assms
proof (induction pages arbitrary: params k sent acc)
  case Nil
  then show ?case by (intro exI [of _ params]) simp
next
  case (Cons p ps)
  let ?r = "\<lparr>req_url = request, req_headers = headers, req_kwargs = kwargs\<rparr>"
  let ?p1 = "AList.update ''page'' (PInt (k + 1)) params"
  have step: "get_all_loop (Suc (length ps + fuel)) srv request headers kwargs params (map_option JList acc) sent
      = get_all_loop (length ps + fuel) srv request headers kwargs ?p1
          (map_option JList (merge acc [p])) (sent @ [?r])"
    using Cons.prems by (intro get_all_loop_page) simp_all
  have "\<exists>params'. page_of params' = Some (k + 1 + int (length ps)) \<and>
           get_all_loop (length ps + fuel) srv request headers kwargs ?p1 (map_option JList (merge acc [p])) (sent @ [?r])
           = get_all_loop fuel srv request headers kwargs params' (map_option JList (merge (merge acc [p]) ps))
               ((sent @ [?r]) @ replicate (length ps) ?r)"
    using Cons.prems by (intro Cons.IH) simp_all
  then obtain params' where p': "page_of params' = Some (k + 1 + int (length ps))"
    and eq: "get_all_loop (length ps + fuel) srv request headers kwargs ?p1 (map_option JList (merge acc [p])) (sent @ [?r])
           = get_all_loop fuel srv request headers kwargs params' (map_option JList (merge (merge acc [p]) ps))
               ((sent @ [?r]) @ replicate (length ps) ?r)" by blast
  have m: "merge (merge acc [p]) ps = merge acc (p # ps)" by (cases acc) simp_all
  have "page_of params' = Some (k + int (length (p # ps)))" using p' by simp
  moreover have "get_all_loop (length (p # ps) + fuel) srv request headers kwargs params (map_option JList acc) sent
           = get_all_loop fuel srv request headers kwargs params' (map_option JList (merge acc (p # ps)))
               (sent @ replicate (length (p # ps)) ?r)"
    using step eq m by (simp add: replicate_app_Cons_same)
  ultimately show ?case by blast
qed

lemma get_all_loop_status:
  assumes "page_of params = Some k"
    and "status_code (srv (sent @ [\<lparr>req_url = request, req_headers = headers, req_kwargs = kwargs\<rparr>])) \<noteq> 200"
  shows "get_all_loop (Suc fuel) srv request headers kwargs params out sent
           = (Some (Inl (IOError (status_msg (srv (sent @ [\<lparr>req_url = request, req_headers = headers, req_kwargs = kwargs\<rparr>])) request))),
              sent @ [\<lparr>req_url = request, req_headers = headers, req_kwargs = kwargs\<rparr>])"
  using assms by (simp add: page_incr_ok requests_get_def Let_def)

lemma gen_next_status:
  assumes "\<not> gen_done g" "gen_entries g = []" "page_of (gen_params g) = Some k"
    and "status_code (srv (sent @ [req_of g])) \<noteq> 200"
  shows "gen_next srv g sent =
           (Raise (IOError (status_msg (srv (sent @ [req_of g])) (gen_request g))),
            g\<lparr>gen_params := AList.update ''page'' (PInt (k + 1)) (gen_params g), gen_done := True\<rparr>,
            sent @ [req_of g])"
  using assms by (simp add: gen_next_def page_incr_ok requests_get_def Let_def req_of_def)

lemma for_loop_prefix:
  assumes "\<not> gen_done g" "page_of (gen_params g) = Some k"
    and "serves srv sent (req_of g) (map JList pages)"
    and "list_all (list_ex truthy) pages"
  shows "\<exists>params'. page_of params' = Some (k + int (length pages)) \<and>
           fst (for_loop (length (gen_entries g @ concat pages) + fuel) srv body g s sent) =
           (case for_list body (gen_entries g @ concat pages) s of
              Exhausted s' \<Rightarrow>
                fst (for_loop fuel srv body (g\<lparr>gen_params := params', gen_entries := []\<rparr>) s'
                       (sent @ replicate (length pages) (req_of g)))
            | Broke s' \<Rightarrow> Some (Inr s')
            | Threw e \<Rightarrow> Some (Inl e))"
  using assms
proof (induction pages arbitrary: g k sent s)
  case Nil
  have e: "fst (for_loop (length (gen_entries g) + fuel) srv body g s sent) =
           (case for_list body (gen_entries g) s of
              Exhausted s' \<Rightarrow> fst (for_loop fuel srv body (g\<lparr>gen_entries := []\<rparr>) s' sent)
            | Broke s' \<Rightarrow> Some (Inr s')
            | Threw e \<Rightarrow> Some (Inl e))"
    using Nil.prems by (intro for_loop_entries) simp_all
  have g: "g\<lparr>gen_params := gen_params g, gen_entries := []\<rparr> = g\<lparr>gen_entries := []\<rparr>" by simp
  show ?case
    by (rule exI [of _ "gen_params g"]) (simp add: Nil.prems e g split: ended.splits)
next
  case (Cons p ps)
  define b where "b = gen_entries g"
  let ?g0 = "g\<lparr>gen_entries := []\<rparr>"
  let ?g1 = "?g0\<lparr>gen_params := AList.update ''page'' (PInt (k + 1)) (gen_params ?g0), gen_entries := p\<rparr>"
  let ?n = "length (p @ concat ps) + fuel"
  have e: "fst (for_loop (length b + ?n) srv body g s sent) =
           (case for_list body b s of
              Exhausted s' \<Rightarrow> fst (for_loop ?n srv body ?g0 s' sent)
            | Broke s' \<Rightarrow> Some (Inr s')
            | Threw e \<Rightarrow> Some (Inl e))"
    using Cons.prems b_def by (intro for_loop_entries) simp_all
  have f: "\<And>s'. fst (for_loop ?n srv body ?g0 s' sent) = fst (for_loop ?n srv body ?g1 s' (sent @ [req_of ?g0]))"
    using Cons.prems by (intro for_loop_fetch) simp_all
  have "\<And>s'. \<exists>params'. page_of params' = Some (k + 1 + int (length ps)) \<and>
           fst (for_loop (length (gen_entries ?g1 @ concat ps) + fuel) srv body ?g1 s' (sent @ [req_of ?g0])) =
           (case for_list body (gen_entries ?g1 @ concat ps) s' of
              Exhausted s'' \<Rightarrow>
                fst (for_loop fuel srv body (?g1\<lparr>gen_params := params', gen_entries := []\<rparr>) s''
                       ((sent @ [req_of ?g0]) @ replicate (length ps) (req_of ?g1)))
            | Broke s'' \<Rightarrow> Some (Inr s'')
            | Threw e \<Rightarrow> Some (Inl e))"
    using Cons.prems by (intro Cons.IH) simp_all
  then have ih: "\<And>s'. \<exists>params'. page_of params' = Some (k + int (length (p # ps))) \<and>
           fst (for_loop ?n srv body ?g1 s' (sent @ [req_of ?g0])) =
           (case for_list body (p @ concat ps) s' of
              Exhausted s'' \<Rightarrow>
                fst (for_loop fuel srv body (g\<lparr>gen_params := params', gen_entries := []\<rparr>) s''
                       (sent @ replicate (length (p # ps)) (req_of g)))
            | Broke s'' \<Rightarrow> Some (Inr s'')
            | Threw e \<Rightarrow> Some (Inl e))"
    by (simp add: replicate_app_Cons_same add.assoc cong: ended.case_cong)
  have len: "length (gen_entries g @ concat (p # ps)) + fuel = length b + ?n" by (simp add: b_def)
  show ?case
  proof (cases "for_list body b s")
    case (Exhausted s')
    from ih [of s'] obtain params' where p': "page_of params' = Some (k + int (length (p # ps)))"
      and eq: "fst (for_loop ?n srv body ?g1 s' (sent @ [req_of ?g0])) =
           (case for_list body (p @ concat ps) s' of
              Exhausted s'' \<Rightarrow>
                fst (for_loop fuel srv body (g\<lparr>gen_params := params', gen_entries := []\<rparr>) s''
                       (sent @ replicate (length (p # ps)) (req_of g)))
            | Broke s'' \<Rightarrow> Some (Inr s'')
            | Threw e \<Rightarrow> Some (Inl e))" by blast
    have "fst (for_loop (length (gen_entries g @ concat (p # ps)) + fuel) srv body g s sent) =
           (case for_list body (gen_entries g @ concat (p # ps)) s of
              Exhausted s'' \<Rightarrow>
                fst (for_loop fuel srv body (g\<lparr>gen_params := params', gen_entries := []\<rparr>) s''
                       (sent @ replicate (length (p # ps)) (req_of g)))
            | Broke s'' \<Rightarrow> Some (Inr s'')
            | Threw e \<Rightarrow> Some (Inl e))"
      unfolding len e using Exhausted f [of s'] eq
      by (simp add: b_def [symmetric] for_list_append)
    with p' show ?thesis by blast
  next
    case (Broke s')
    have "fst (for_loop (length (gen_entries g @ concat (p # ps)) + fuel) srv body g s sent) = Some (Inr s')"
      unfolding len e using Broke by simp
    moreover have "for_list body (gen_entries g @ concat (p # ps)) s = Broke s'"
      using Broke by (simp add: b_def [symmetric] for_list_append)
    ultimately show ?thesis
      by (intro exI [of _ "AList.update ''page'' (PInt (k + int (length (p # ps)))) (gen_params g)"]) simp
  next
    case (Threw e')
    have "fst (for_loop (length (gen_entries g @ concat (p # ps)) + fuel) srv body g s sent) = Some (Inl e')"
      unfolding len e using Threw by simp
    moreover have "for_list body (gen_entries g @ concat (p # ps)) s = Threw e'"
      using Threw by (simp add: b_def [symmetric] for_list_append)
    ultimately show ?thesis
      by (intro exI [of _ "AList.update ''page'' (PInt (k + int (length (p # ps)))) (gen_params g)"]) simp
  qed
qed

subsection \<open>Merging the pages\<close>

lemma pages_length: "list_all (list_ex truthy) pages \<Longrightarrow> length pages \<le> length (concat pages)"
proof (induction pages)
  case Nil
  show ?case by simp
next
  case (Cons p ps)
  then have "p \<noteq> []" by (cases p) auto
  then have "1 \<le> length p" by (cases p) auto
  with Cons show ?case by simp
qed

lemma for_list_collect: "for_list (\<lambda>x acc. Continue (acc @ [x])) xs acc = Exhausted (acc @ xs)"
  by (induction xs arbitrary: acc) simp_all

lemma get_generator_fresh [simp]:
  "gen_entries (get_generator self request kwargs) = []"
  "\<not> gen_done (get_generator self request kwargs)"
  "page_of (gen_params (get_generator self request kwargs)) = Some 0"
  "gen_request (get_generator self request kwargs) = request"
  by (simp_all add: get_generator_def split_beta)

lemma get_all_unfold:
  "get_all fuel srv self request kwargs sent =
     get_all_loop fuel srv request (fst (pop_headers self kwargs))
       (kwargs\<lparr>kw_headers := None, kw_params := None\<rparr>)
       (fst (pop_params (snd (pop_headers self kwargs)))) None sent"
  by (simp add: get_all_def pop_params_kwargs pop_headers_kwargs split_beta)

text \<open>
  C7, as stated, fails on the code: a page is taken for the end of the pagination when
  \<^verbatim>\<open>any\<close> finds no true element in it, so a page that is not empty but holds only
  false elements (here the single record \<^verbatim>\<open>null\<close>) ends the pagination, and the one
  item served is neither returned nor yielded.
\<close>

theorem falsy_page_ends_pagination:
  "fst (get_all 5 (scripted [ok_page (JList [JNull]), ok_page (JList [])]) client ''u'' no_kwargs [])
     = Some (Inr None)
   \<and> fst (collect 5 (scripted [ok_page (JList [JNull]), ok_page (JList [])])
           (get_generator client ''u'' no_kwargs) [])
     = Some (Inr [])"
  by code_simp

text \<open>
  C7, amended. When the server answers the paginated request with pages that each hold
  at least one true element, and then with a page without one, the generator yields the
  items of all the pages, in the order served, and \<^verbatim>\<open>get_all\<close> returns the list of
  exactly these items when there is at least one such page. Fuel beyond the number of
  items is enough for both.
\<close>

theorem pages_merged_in_order:
  assumes "serves srv sent (req_of (get_generator self request kwargs)) (map JList pages @ [final])"
    and "list_all (list_ex truthy) pages"
    and "py_any final = Inr False"
    and "length (concat pages) < fuel"
  shows "fst (collect fuel srv (get_generator self request kwargs) sent) = Some (Inr (concat pages))
       \<and> (pages \<noteq> [] \<longrightarrow>
            fst (get_all fuel srv self request kwargs sent) = Some (Inr (Some (JList (concat pages)))))"
proof
  let ?g = "get_generator self request kwargs"
  have "fst (for_loop fuel srv (\<lambda>x acc. Continue (acc @ [x])) ?g [] sent)
          = Some (result_of (for_list (\<lambda>x acc. Continue (acc @ [x])) (gen_entries ?g @ concat pages) []))"
    using assms by (intro for_loop_stream [where k = 0 and tail = "[final]"]) simp_all
  then show "fst (collect fuel srv ?g sent) = Some (Inr (concat pages))"
    by (simp add: collect_def for_list_collect)
next
  show "pages \<noteq> [] \<longrightarrow>
          fst (get_all fuel srv self request kwargs sent) = Some (Inr (Some (JList (concat pages))))"
  proof
    assume ne: "pages \<noteq> []"
    let ?r = "\<lparr>req_url = request, req_headers = fst (pop_headers self kwargs),
               req_kwargs = kwargs\<lparr>kw_headers := None, kw_params := None\<rparr>\<rparr>"
    have len: "length pages < fuel" using pages_length [OF assms(2)] assms(4) by simp
    have "get_all_loop fuel srv request (fst (pop_headers self kwargs))
            (kwargs\<lparr>kw_headers := None, kw_params := None\<rparr>)
            (fst (pop_params (snd (pop_headers self kwargs)))) (map_option JList None) sent
          = (Some (Inr (map_option JList (merge None pages))), sent @ replicate (Suc (length pages)) ?r)"
      using assms(1-3) len
      by (intro get_all_loop_pages [where k = 0 and final = final]) (simp_all add: req_of_get_generator)
    then show "fst (get_all fuel srv self request kwargs sent) = Some (Inr (Some (JList (concat pages))))"
      using ne by (simp add: get_all_unfold merge_None)
  qed
qed


text \<open>The amended C7 on two pages with three items, one of them false.\<close>

theorem pages_merged_in_order_witness:
  "fst (collect 4 (scripted [ok_page (JList [JInt 1, JInt 0]), ok_page (JList [JInt 3]), ok_page (JList [])])
         (get_generator client ''u'' no_kwargs) [])
     = Some (Inr [JInt 1, JInt 0, JInt 3])
   \<and> fst (get_all 4 (scripted [ok_page (JList [JInt 1, JInt 0]), ok_page (JList [JInt 3]), ok_page (JList [])])
         client ''u'' no_kwargs [])
     = Some (Inr (Some (JList [JInt 1, JInt 0, JInt 3])))"
proof -
  let ?srv = "scripted [ok_page (JList [JInt 1, JInt 0]), ok_page (JList [JInt 3]), ok_page (JList [])]"
  have a: "serves ?srv [] (req_of (get_generator client ''u'' no_kwargs))
             (map JList [[JInt 1, JInt 0], [JInt 3]] @ [JList []])"
    by (simp add: scripted_def ok_page_def)
  have b: "list_all (list_ex truthy) [[JInt 1, JInt 0], [JInt 3]]" by simp
  have c: "py_any (JList []) = Inr False" by simp
  have d: "length (concat [[JInt 1, JInt 0], [JInt 3]]) < (4::nat)" by simp
  from pages_merged_in_order [OF a b c d] show ?thesis by simp
qed


text \<open>With at least one page of records, \<^verbatim>\<open>forks\<close> returns their number.\<close>

lemma forks_counts_records:
  assumes "serves srv sent (req_of (get_generator self (base_req self @ ''/forks'') kwargs))
             (map JList pages @ [final])"
    and "list_all (list_ex truthy) pages" and "py_any final = Inr False"
    and "length pages < fuel" and "pages \<noteq> []"
  shows "fst (forks fuel srv self kwargs sent) = Some (Inr (length (concat pages)))"
proof -
  let ?request = "base_req self @ ''/forks''"
  have "get_all_loop fuel srv ?request (fst (pop_headers self kwargs))
            (kwargs\<lparr>kw_headers := None, kw_params := None\<rparr>)
            (fst (pop_params (snd (pop_headers self kwargs)))) (map_option JList None) sent
          = (Some (Inr (map_option JList (merge None pages))),
             sent @ replicate (Suc (length pages))
               \<lparr>req_url = ?request, req_headers = fst (pop_headers self kwargs),
                req_kwargs = kwargs\<lparr>kw_headers := None, kw_params := None\<rparr>\<rparr>)"
    using assms(1-4)
    by (intro get_all_loop_pages [where k = 0 and final = final]) (simp_all add: req_of_get_generator)
  then show ?thesis
    using assms(5) by (simp add: forks_def len_of_def get_all_unfold merge_None)
qed

subsection \<open>A status other than 200\<close>

lemma get_request_unfold:
  "get_request srv self request kwargs sent =
     (let r = \<lparr>req_url = request, req_headers = fst (pop_headers self kwargs),
                req_kwargs = kwargs\<lparr>kw_headers := None\<rparr>\<rparr>
      in if status_code (srv (sent @ [r])) \<noteq> 200
         then (Inl (IOError (status_msg (srv (sent @ [r])) request)), sent @ [r])
         else (Inr (srv (sent @ [r])), sent @ [r]))"
  by (simp add: get_request_def requests_get_def pop_headers_kwargs split_beta Let_def)

lemma get_all_status_after_pages:
  assumes "serves srv sent (req_of (get_generator self request kwargs)) (map JList pages)"
    and "list_all (list_ex truthy) pages"
    and "status_code (srv (sent @ replicate (Suc (length pages)) (req_of (get_generator self request kwargs)))) \<noteq> 200"
  shows "fst (get_all (Suc (length pages + fuel)) srv self request kwargs sent)
           = Some (Inl (IOError (status_msg
               (srv (sent @ replicate (Suc (length pages)) (req_of (get_generator self request kwargs)))) request)))"
proof -
  let ?h = "fst (pop_headers self kwargs)"
  let ?kw = "kwargs\<lparr>kw_headers := None, kw_params := None\<rparr>"
  let ?r = "\<lparr>req_url = request, req_headers = ?h, req_kwargs = ?kw\<rparr>"
  let ?p = "fst (pop_params (snd (pop_headers self kwargs)))"
  have r: "req_of (get_generator self request kwargs) = ?r" by (rule req_of_get_generator)
  have "\<exists>params'. page_of params' = Some (0 + int (length pages)) \<and>
           get_all_loop (length pages + Suc fuel) srv request ?h ?kw ?p (map_option JList None) sent
           = get_all_loop (Suc fuel) srv request ?h ?kw params' (map_option JList (merge None pages))
               (sent @ replicate (length pages) ?r)"
    using assms(1,2) by (intro get_all_loop_prefix) (simp_all add: r)
  then obtain params' where p': "page_of params' = Some (0 + int (length pages))"
    and eq: "get_all_loop (length pages + Suc fuel) srv request ?h ?kw ?p (map_option JList None) sent
           = get_all_loop (Suc fuel) srv request ?h ?kw params' (map_option JList (merge None pages))
               (sent @ replicate (length pages) ?r)" by blast
  have s: "(sent @ replicate (length pages) ?r) @ [?r] = sent @ replicate (Suc (length pages)) ?r"
    by (simp add: replicate_append_same)
  have "get_all_loop (Suc fuel) srv request ?h ?kw params' (map_option JList (merge None pages))
               (sent @ replicate (length pages) ?r)
        = (Some (Inl (IOError (status_msg (srv ((sent @ replicate (length pages) ?r) @ [?r])) request))),
              (sent @ replicate (length pages) ?r) @ [?r])"
    using p' assms(3) unfolding r s [symmetric] by (intro get_all_loop_status)
  with eq show ?thesis unfolding r by (simp add: get_all_unfold s replicate_append_same)
qed

lemma collect_status_after_pages:
  assumes "serves srv sent (req_of (get_generator self request kwargs)) (map JList pages)"
    and "list_all (list_ex truthy) pages"
    and "status_code (srv (sent @ replicate (Suc (length pages)) (req_of (get_generator self request kwargs)))) \<noteq> 200"
  shows "fst (collect (Suc (length (concat pages) + fuel)) srv (get_generator self request kwargs) sent)
           = Some (Inl (IOError (status_msg
               (srv (sent @ replicate (Suc (length pages)) (req_of (get_generator self request kwargs)))) request)))"
proof -
  let ?g = "get_generator self request kwargs"
  let ?body = "\<lambda>x acc. Continue (acc @ [x])"
  have "\<exists>params'. page_of params' = Some (0 + int (length pages)) \<and>
           fst (for_loop (length (gen_entries ?g @ concat pages) + Suc fuel) srv ?body ?g [] sent) =
           (case for_list ?body (gen_entries ?g @ concat pages) [] of
              Exhausted s' \<Rightarrow>
                fst (for_loop (Suc fuel) srv ?body (?g\<lparr>gen_params := params', gen_entries := []\<rparr>) s'
                       (sent @ replicate (length pages) (req_of ?g)))
            | Broke s' \<Rightarrow> Some (Inr s')
            | Threw e \<Rightarrow> Some (Inl e))"
    using assms(1,2) by (intro for_loop_prefix) simp_all
  then obtain params' where p': "page_of params' = Some (int (length pages))"
    and eq: "fst (for_loop (length (concat pages) + Suc fuel) srv ?body ?g [] sent) =
                fst (for_loop (Suc fuel) srv ?body (?g\<lparr>gen_params := params', gen_entries := []\<rparr>) (concat pages)
                       (sent @ replicate (length pages) (req_of ?g)))"
    by (auto simp: for_list_collect)
  let ?g' = "?g\<lparr>gen_params := params', gen_entries := []\<rparr>"
  let ?sent = "sent @ replicate (length pages) (req_of ?g)"
  have s: "?sent @ [req_of ?g] = sent @ replicate (Suc (length pages)) (req_of ?g)"
    by (simp add: replicate_append_same)
  have "gen_next srv ?g' ?sent =
           (Raise (IOError (status_msg (srv (?sent @ [req_of ?g'])) (gen_request ?g'))),
            ?g'\<lparr>gen_params := AList.update ''page'' (PInt (int (length pages) + 1)) (gen_params ?g'), gen_done := True\<rparr>,
            ?sent @ [req_of ?g'])"
    using p' assms(3) by (intro gen_next_status) (simp_all add: replicate_append_same)
  then have "fst (for_loop (Suc fuel) srv ?body ?g' (concat pages) ?sent)
      = Some (Inl (IOError (status_msg (srv (?sent @ [req_of ?g])) request)))"
    by (simp add: for_loop.simps)
  with eq show ?thesis by (simp add: collect_def replicate_append_same)
qed

text \<open>
  C9. A response whose status is not 200 raises \<^verbatim>\<open>IOError\<close> with a message made of
  the status code, the reason, the request URL and the body of the response, and the
  caller gets the error and nothing else: in \<^verbatim>\<open>get_request\<close>; in \<^verbatim>\<open>get_all\<close> and
  in the generator read to its end, after any number of good list pages, whatever had
  been merged or yielded before; and at every turn of the two loops, for every state
  they can be in (for the generator, the turn that fetches a page; the generator is
  finished afterwards).
\<close>

theorem non_200_raises_io_error:
  assumes "status_code resp \<noteq> 200"
  shows "(srv (sent @ [\<lparr>req_url = request, req_headers = fst (pop_headers self kwargs),
                        req_kwargs = kwargs\<lparr>kw_headers := None\<rparr>\<rparr>]) = resp
            \<longrightarrow> fst (get_request srv self request kwargs sent) = Inl (IOError (status_msg resp request)))
       \<and> (serves srv sent (req_of (get_generator self request kwargs)) (map JList pages)
            \<and> list_all (list_ex truthy) pages
            \<and> srv (sent @ replicate (Suc (length pages)) (req_of (get_generator self request kwargs))) = resp
            \<longrightarrow> fst (get_all (Suc (length pages + fuel)) srv self request kwargs sent)
                  = Some (Inl (IOError (status_msg resp request)))
              \<and> fst (collect (Suc (length (concat pages) + fuel)) srv (get_generator self request kwargs) sent)
                  = Some (Inl (IOError (status_msg resp request))))
       \<and> (page_of params = Some k
            \<and> srv (sent @ [\<lparr>req_url = request, req_headers = headers, req_kwargs = kw\<rparr>]) = resp
            \<longrightarrow> fst (get_all_loop (Suc fuel) srv request headers kw params out sent)
                  = Some (Inl (IOError (status_msg resp request))))
       \<and> (\<not> gen_done g \<and> gen_entries g = [] \<and> page_of (gen_params g) = Some k
            \<and> srv (sent @ [req_of g]) = resp
            \<longrightarrow> fst (gen_next srv g sent) = Raise (IOError (status_msg resp (gen_request g)))
              \<and> gen_done (fst (snd (gen_next srv g sent))))
       \<and> status_msg resp request =
           ''Received unexpected status code \"'' @ str_int (status_code resp)
             @ ''\" for reason \"'' @ reason resp @ ''\".'' @ [CHR 0x0A]
             @ ''Request: '' @ request @ [CHR 0x0A] @ ''Output: '' @ resp_text resp"
proof (intro conjI impI)
  assume "srv (sent @ [\<lparr>req_url = request, req_headers = fst (pop_headers self kwargs),
                        req_kwargs = kwargs\<lparr>kw_headers := None\<rparr>\<rparr>]) = resp"
  then show "fst (get_request srv self request kwargs sent) = Inl (IOError (status_msg resp request))"
    using assms by (simp add: get_request_unfold Let_def)
next
  assume a: "serves srv sent (req_of (get_generator self request kwargs)) (map JList pages)
            \<and> list_all (list_ex truthy) pages
            \<and> srv (sent @ replicate (Suc (length pages)) (req_of (get_generator self request kwargs))) = resp"
  then have st: "status_code (srv (sent @ replicate (Suc (length pages)) (req_of (get_generator self request kwargs)))) \<noteq> 200"
    using assms by simp
  from a have a1: "serves srv sent (req_of (get_generator self request kwargs)) (map JList pages)"
    and a2: "list_all (list_ex truthy) pages" by simp_all
  show "fst (get_all (Suc (length pages + fuel)) srv self request kwargs sent)
          = Some (Inl (IOError (status_msg resp request)))"
    using get_all_status_after_pages [OF a1 a2 st, of fuel] a by simp
  show "fst (collect (Suc (length (concat pages) + fuel)) srv (get_generator self request kwargs) sent)
          = Some (Inl (IOError (status_msg resp request)))"
    using collect_status_after_pages [OF a1 a2 st, of fuel] a by simp
next
  assume "page_of params = Some k
            \<and> srv (sent @ [\<lparr>req_url = request, req_headers = headers, req_kwargs = kw\<rparr>]) = resp"
  then show "fst (get_all_loop (Suc fuel) srv request headers kw params out sent)
                  = Some (Inl (IOError (status_msg resp request)))"
    using assms get_all_loop_status [of params k srv sent request headers kw fuel out] by simp
next
  assume a: "\<not> gen_done g \<and> gen_entries g = [] \<and> page_of (gen_params g) = Some k
            \<and> srv (sent @ [req_of g]) = resp"
  then have "gen_next srv g sent =
           (Raise (IOError (status_msg (srv (sent @ [req_of g])) (gen_request g))),
            g\<lparr>gen_params := AList.update ''page'' (PInt (k + 1)) (gen_params g), gen_done := True\<rparr>,
            sent @ [req_of g])"
    using assms by (intro gen_next_status) simp_all
  with a show "fst (gen_next srv g sent) = Raise (IOError (status_msg resp (gen_request g)))"
    and "gen_done (fst (snd (gen_next srv g sent)))" by simp_all
next
  show "status_msg resp request =
           ''Received unexpected status code \"'' @ str_int (status_code resp)
             @ ''\" for reason \"'' @ reason resp @ ''\".'' @ [CHR 0x0A]
             @ ''Request: '' @ request @ [CHR 0x0A] @ ''Output: '' @ resp_text resp"
    by (simp add: status_msg_def)
qed

text \<open>C9 with the status 503 as the first answer and as the answer after one page.\<close>

theorem non_200_raises_io_error_witness:
  "status_code unavailable \<noteq> 200
   \<and> fst (get_request (scripted []) client ''u'' no_kwargs [])
       = Inl (IOError (status_msg unavailable ''u''))
   \<and> fst (get_all 2 (scripted [ok_page (JList [JInt 1])]) client ''u'' no_kwargs [])
       = Some (Inl (IOError (status_msg unavailable ''u'')))
   \<and> fst (collect 2 (scripted [ok_page (JList [JInt 1])]) (get_generator client ''u'' no_kwargs) [])
       = Some (Inl (IOError (status_msg unavailable ''u'')))"
proof -
  have h: "status_code unavailable \<noteq> 200" by (simp add: unavailable_def)
  note A = non_200_raises_io_error [OF h, where srv = "scripted []" and sent = "[]"
      and request = "''u''" and self = client and kwargs = no_kwargs]
  note B = non_200_raises_io_error [OF h, where srv = "scripted [ok_page (JList [JInt 1])]" and sent = "[]"
      and request = "''u''" and self = client and kwargs = no_kwargs and pages = "[[JInt 1]]" and fuel = 0]
  have 1: "fst (get_request (scripted []) client ''u'' no_kwargs [])
       = Inl (IOError (status_msg unavailable ''u''))"
    using A by (simp add: scripted_def)
  have 2: "fst (get_all 2 (scripted [ok_page (JList [JInt 1])]) client ''u'' no_kwargs [])
       = Some (Inl (IOError (status_msg unavailable ''u'')))"
    and 3: "fst (collect 2 (scripted [ok_page (JList [JInt 1])]) (get_generator client ''u'' no_kwargs) [])
       = Some (Inl (IOError (status_msg unavailable ''u'')))"
    using B by (simp_all add: scripted_def ok_page_def numeral_2_eq_2)
  from h 1 2 3 show ?thesis by blast
qed


subsection \<open>The authorization header\<close>

lemma pop_headers_given:
  "kw_headers kwargs = Some h \<Longrightarrow> dict_has ''Authorization'' h \<Longrightarrow> fst (pop_headers self kwargs) = h"
  by (simp add: pop_headers_def Let_def)

lemma pop_headers_own:
  "\<not> dict_has ''Authorization'' (case kw_headers kwargs of None \<Rightarrow> [] | Some h \<Rightarrow> h) \<Longrightarrow>
     fst (pop_headers self kwargs) =
       AList.update ''Authorization'' (''token '' @ str_opt (token self))
         (case kw_headers kwargs of None \<Rightarrow> [] | Some h \<Rightarrow> h)"
  by (simp add: pop_headers_def Let_def)

lemma get_request_sent:
  "snd (get_request srv self request kwargs sent) =
     sent @ [\<lparr>req_url = request, req_headers = fst (pop_headers self kwargs),
              req_kwargs = kwargs\<lparr>kw_headers := None\<rparr>\<rparr>]"
  by (simp add: get_request_unfold Let_def)

text \<open>
  C10. When the caller's \<^verbatim>\<open>headers\<close> hold the key \<^verbatim>\<open>Authorization\<close>, every request
  of \<^verbatim>\<open>get_request\<close>, \<^verbatim>\<open>get_all\<close> and the generator (under any loop that reads it)
  is sent with exactly the caller's headers. When they do not (or no headers are given),
  every request is sent with the caller's headers and the client's own
  \<^verbatim>\<open>Authorization: token ...\<close> added.
\<close>

theorem authorization_header:
  "(kw_headers kwargs = Some h \<and> dict_has ''Authorization'' h \<longrightarrow>
      snd (get_request srv self request kwargs sent)
        = sent @ [\<lparr>req_url = request, req_headers = h, req_kwargs = kwargs\<lparr>kw_headers := None\<rparr>\<rparr>]
      \<and> (\<exists>n. snd (get_all fuel srv self request kwargs sent)
            = sent @ replicate n \<lparr>req_url = request, req_headers = h,
                                   req_kwargs = kwargs\<lparr>kw_headers := None, kw_params := None\<rparr>\<rparr>)
      \<and> (\<exists>n. snd (snd (for_loop fuel srv body (get_generator self request kwargs) s sent))
            = sent @ replicate n \<lparr>req_url = request, req_headers = h,
                                   req_kwargs = kwargs\<lparr>kw_headers := None, kw_params := None\<rparr>\<rparr>))
   \<and> (hs = (case kw_headers kwargs of None \<Rightarrow> [] | Some h \<Rightarrow> h) \<and> \<not> dict_has ''Authorization'' hs \<longrightarrow>
      snd (get_request srv self request kwargs sent)
        = sent @ [\<lparr>req_url = request,
                   req_headers = AList.update ''Authorization'' (''token '' @ str_opt (token self)) hs,
                   req_kwargs = kwargs\<lparr>kw_headers := None\<rparr>\<rparr>]
      \<and> (\<exists>n. snd (get_all fuel srv self request kwargs sent)
            = sent @ replicate n \<lparr>req_url = request,
                   req_headers = AList.update ''Authorization'' (''token '' @ str_opt (token self)) hs,
                   req_kwargs = kwargs\<lparr>kw_headers := None, kw_params := None\<rparr>\<rparr>)
      \<and> (\<exists>n. snd (snd (for_loop fuel srv body (get_generator self request kwargs) s sent))
            = sent @ replicate n \<lparr>req_url = request,
                   req_headers = AList.update ''Authorization'' (''token '' @ str_opt (token self)) hs,
                   req_kwargs = kwargs\<lparr>kw_headers := None, kw_params := None\<rparr>\<rparr>))"
proof -
  have all: "\<exists>n. snd (get_all fuel srv self request kwargs sent)
            = sent @ replicate n \<lparr>req_url = request, req_headers = fst (pop_headers self kwargs),
                                   req_kwargs = kwargs\<lparr>kw_headers := None, kw_params := None\<rparr>\<rparr>"
    using get_all_sent [of fuel srv self request kwargs sent] by (simp add: req_of_get_generator)
  have gen: "\<exists>n. snd (snd (for_loop fuel srv body (get_generator self request kwargs) s sent))
            = sent @ replicate n \<lparr>req_url = request, req_headers = fst (pop_headers self kwargs),
                                   req_kwargs = kwargs\<lparr>kw_headers := None, kw_params := None\<rparr>\<rparr>"
    using for_loop_sent [of fuel srv body "get_generator self request kwargs" s sent]
    by (simp add: req_of_get_generator)
  show ?thesis
  proof (intro conjI impI)
    assume a: "kw_headers kwargs = Some h \<and> dict_has ''Authorization'' h"
    then have h: "fst (pop_headers self kwargs) = h" by (simp add: pop_headers_given)
    show "snd (get_request srv self request kwargs sent)
        = sent @ [\<lparr>req_url = request, req_headers = h, req_kwargs = kwargs\<lparr>kw_headers := None\<rparr>\<rparr>]"
      by (simp add: get_request_sent h)
    show "\<exists>n. snd (get_all fuel srv self request kwargs sent)
            = sent @ replicate n \<lparr>req_url = request, req_headers = h,
                                   req_kwargs = kwargs\<lparr>kw_headers := None, kw_params := None\<rparr>\<rparr>"
      using all by (simp add: h)
    show "\<exists>n. snd (snd (for_loop fuel srv body (get_generator self request kwargs) s sent))
            = sent @ replicate n \<lparr>req_url = request, req_headers = h,
                                   req_kwargs = kwargs\<lparr>kw_headers := None, kw_params := None\<rparr>\<rparr>"
      using gen by (simp add: h)
  next
    assume a: "hs = (case kw_headers kwargs of None \<Rightarrow> [] | Some h \<Rightarrow> h) \<and> \<not> dict_has ''Authorization'' hs"
    then have n: "\<not> dict_has ''Authorization'' (case kw_headers kwargs of None \<Rightarrow> [] | Some h \<Rightarrow> h)"
      by auto
    have h: "fst (pop_headers self kwargs)
        = AList.update ''Authorization'' (''token '' @ str_opt (token self)) hs"
      using pop_headers_own [OF n, of self] a by simp
    show "snd (get_request srv self request kwargs sent)
        = sent @ [\<lparr>req_url = request,
                   req_headers = AList.update ''Authorization'' (''token '' @ str_opt (token self)) hs,
                   req_kwargs = kwargs\<lparr>kw_headers := None\<rparr>\<rparr>]"
      by (simp add: get_request_sent h)
    show "\<exists>n. snd (get_all fuel srv self request kwargs sent)
            = sent @ replicate n \<lparr>req_url = request,
                   req_headers = AList.update ''Authorization'' (''token '' @ str_opt (token self)) hs,
                   req_kwargs = kwargs\<lparr>kw_headers := None, kw_params := None\<rparr>\<rparr>"
      using all by (simp add: h)
    show "\<exists>n. snd (snd (for_loop fuel srv body (get_generator self request kwargs) s sent))
            = sent @ replicate n \<lparr>req_url = request,
                   req_headers = AList.update ''Authorization'' (''token '' @ str_opt (token self)) hs,
                   req_kwargs = kwargs\<lparr>kw_headers := None, kw_params := None\<rparr>\<rparr>"
      using gen by (simp add: h)
  qed
qed


text \<open>C10 on a caller with an \<^verbatim>\<open>Authorization\<close> header and on one without.\<close>

theorem authorization_header_witness:
  "map req_headers
     (snd (get_request (scripted [ok_page (JList [])]) client ''u''
            (no_kwargs\<lparr>kw_headers := Some [(''Accept'', ''json''), (''Authorization'', ''Bearer xyz'')]\<rparr>) []))
     = [[(''Accept'', ''json''), (''Authorization'', ''Bearer xyz'')]]
   \<and> map req_headers
     (snd (get_request (scripted [ok_page (JList [])]) client ''u''
            (no_kwargs\<lparr>kw_headers := Some [(''Accept'', ''json'')]\<rparr>) []))
     = [[(''Accept'', ''json''), (''Authorization'', ''token abc'')]]"
proof -
  note A = authorization_header [where kwargs = "no_kwargs\<lparr>kw_headers := Some [(''Accept'', ''json''), (''Authorization'', ''Bearer xyz'')]\<rparr>"
      and h = "[(''Accept'', ''json''), (''Authorization'', ''Bearer xyz'')]" and hs = "[]" and fuel = 0 and body = "\<lambda>x s. Continue s" and s = "()"
      and srv = "scripted [ok_page (JList [])]" and self = client and request = "''u''" and sent = "[]"]
  note B = authorization_header [where kwargs = "no_kwargs\<lparr>kw_headers := Some [(''Accept'', ''json'')]\<rparr>"
      and h = "[]" and hs = "[(''Accept'', ''json'')]" and fuel = 0 and body = "\<lambda>x s. Continue s" and s = "()"
      and srv = "scripted [ok_page (JList [])]" and self = client and request = "''u''" and sent = "[]"]
  have 1: "map req_headers
     (snd (get_request (scripted [ok_page (JList [])]) client ''u''
            (no_kwargs\<lparr>kw_headers := Some [(''Accept'', ''json''), (''Authorization'', ''Bearer xyz'')]\<rparr>) []))
     = [[(''Accept'', ''json''), (''Authorization'', ''Bearer xyz'')]]"
    using A by (simp add: dict_has_def)
  have 2: "map req_headers
     (snd (get_request (scripted [ok_page (JList [])]) client ''u''
            (no_kwargs\<lparr>kw_headers := Some [(''Accept'', ''json'')]\<rparr>) []))
     = [[(''Accept'', ''json''), (''Authorization'', ''token abc'')]]"
    using B by (simp add: dict_has_def no_kwargs_def client_def str_opt_def)
  from 1 2 show ?thesis by blast
qed

subsection \<open>Commits by date\<close>

lemma too_early_notin: "too_early c date_iter \<Longrightarrow> c \<notin> set date_iter"
  by (auto simp: too_early_def list_all_iff)

lemma scan_dates_eq:
  "scan_dates c dates out stop =
     (if c \<in> set dates then (at_incr c out, False) else (out, stop \<and> too_early c dates))"
proof (induction dates arbitrary: stop)
  case Nil
  show ?case by (simp add: too_early_def)
next
  case (Cons d ds)
  show ?case
  proof (cases "c = d")
    case True
    then show ?thesis by simp
  next
    case False
    show ?thesis
    proof (cases "d < c")
      case True
      with False Cons [of False] show ?thesis by (auto simp: too_early_def)
    next
      case gt: False
      with False have "c < d" by auto
      with False gt Cons [of stop] show ?thesis by (auto simp: too_early_def)
    qed
  qed
qed

lemma at_incr_counts: "at_incr c (counts_table date_iter cs) = counts_table date_iter (cs @ [c])"
  by (simp add: at_incr_def counts_table_def)

lemma counts_notin: "c \<notin> set date_iter \<Longrightarrow> counts_table date_iter (cs @ [c]) = counts_table date_iter cs"
  by (auto simp: counts_table_def)

lemma commits_body_eq:
  assumes "commit_date com = Inr c"
  shows "commits_body date_iter search_all com (counts_table date_iter cs) =
           (if too_early c date_iter \<and> \<not> search_all then Break (counts_table date_iter cs)
            else Continue (counts_table date_iter (cs @ [c])))"
proof (cases "c \<in> set date_iter")
  case True
  then have "\<not> too_early c date_iter" using too_early_notin by blast
  with True assms show ?thesis
    by (simp add: commits_body_def scan_dates_eq at_incr_counts)
next
  case False
  with assms show ?thesis
    by (simp add: commits_body_def scan_dates_eq counts_notin)
qed

lemma for_list_commits:
  assumes "map commit_date coms = map Inr ds"
  shows "for_list (commits_body date_iter search_all) coms (counts_table date_iter cs) =
           (if list_all (\<lambda>c. search_all \<or> \<not> too_early c date_iter) ds
            then Exhausted (counts_table date_iter (cs @ ds))
            else Broke (counts_table date_iter (cs @ scanned search_all date_iter ds)))"
  using assms
proof (induction coms arbitrary: ds cs)
  case Nil
  then show ?case by simp
next
  case (Cons com coms)
  then obtain c ds' where ds: "ds = c # ds'" and c: "commit_date com = Inr c"
    and rest: "map commit_date coms = map Inr ds'" by (cases ds) auto
  show ?case
  proof (cases "too_early c date_iter \<and> \<not> search_all")
    case True
    then show ?thesis by (simp add: ds commits_body_eq [OF c] scanned_def)
  next
    case False
    have "for_list (commits_body date_iter search_all) coms (counts_table date_iter (cs @ [c])) =
           (if list_all (\<lambda>c. search_all \<or> \<not> too_early c date_iter) ds'
            then Exhausted (counts_table date_iter ((cs @ [c]) @ ds'))
            else Broke (counts_table date_iter ((cs @ [c]) @ scanned search_all date_iter ds')))"
      using rest by (rule Cons.IH)
    with False show ?thesis by (auto simp: ds commits_body_eq [OF c] scanned_def)
  qed
qed

lemma scanned_all:
  "list_all (\<lambda>c. search_all \<or> \<not> too_early c date_iter) ds \<Longrightarrow> scanned search_all date_iter ds = ds"
  by (simp add: scanned_def list_all_iff)

lemma commits_unfold:
  "fst (commits fuel srv self date_iter search_all kwargs sent) =
     fst (for_loop fuel srv (commits_body date_iter search_all)
            (get_generator self (base_req self @ ''/commits'') kwargs) (counts_table date_iter []) sent)"
  by (simp add: commits_def new_table_def counts_table_def Let_def split: prod.splits)

text \<open>
  C8. Let the server answer the commits request with pages of commit records, each page
  holding a true element, and let \<open>ds\<close> be the author dates of the first commits of this
  stream. \<^verbatim>\<open>commits\<close> returns the table that gives, for each date asked for, the number
  of commits of exactly that date among the commits before the first one that is
  strictly earlier than every date asked for, or among all the commits when
  \<^verbatim>\<open>search_all\<close> is set. It does so in two cases. Either \<^verbatim>\<open>search_all\<close> is not set and
  one of the commits \<open>ds\<close> is too early: then nothing is asked of the commits after it
  nor of the answers after these pages, which are never read. Or \<open>ds\<close> are all the
  commits and the next page ends the pagination. No order of the stream is needed.
\<close>

theorem commits_by_date:
  assumes "serves srv sent (req_of (get_generator self (base_req self @ ''/commits'') kwargs))
             (map JList pages @ tail)"
    and "list_all (list_ex truthy) pages"
    and "map commit_date (take (length ds) (concat pages)) = map Inr ds"
    and "(\<not> search_all \<and> list_ex (\<lambda>c. too_early c date_iter) ds)
         \<or> (length ds = length (concat pages) \<and> tail \<noteq> [] \<and> py_any (hd tail) = Inr False)"
    and "length (concat pages) < fuel"
  shows "fst (commits fuel srv self date_iter search_all kwargs sent)
           = Some (Inr (counts_table date_iter (scanned search_all date_iter ds)))"
proof -
  let ?g = "get_generator self (base_req self @ ''/commits'') kwargs"
  let ?body = "commits_body date_iter search_all"
  let ?coms = "concat pages"
  let ?pre = "take (length ds) ?coms" and ?post = "drop (length ds) ?coms"
  let ?ok = "list_all (\<lambda>c. search_all \<or> \<not> too_early c date_iter) ds"
  have pre: "for_list ?body ?pre (counts_table date_iter []) =
           (if ?ok then Exhausted (counts_table date_iter ([] @ ds))
            else Broke (counts_table date_iter ([] @ scanned search_all date_iter ds)))"
    using assms(3) by (rule for_list_commits)
  have split: "for_list ?body ?coms (counts_table date_iter []) =
     (case for_list ?body ?pre (counts_table date_iter []) of
        Exhausted s' \<Rightarrow> for_list ?body ?post s' | Broke s' \<Rightarrow> Broke s' | Threw e \<Rightarrow> Threw e)"
    using for_list_append [of ?body ?pre ?post "counts_table date_iter []"] by simp
  have early: "for_list ?body ?coms (counts_table date_iter [])
                 = Broke (counts_table date_iter (scanned search_all date_iter ds))"
    if "\<not> search_all \<and> list_ex (\<lambda>c. too_early c date_iter) ds"
  proof -
    from that have "\<not> ?ok" by (auto simp: list_all_iff list_ex_iff)
    then have "for_list ?body ?pre (counts_table date_iter [])
                 = Broke (counts_table date_iter (scanned search_all date_iter ds))"
      using pre by simp
    then show ?thesis unfolding split by simp
  qed
  have full: "for_list ?body ?coms (counts_table date_iter []) =
           (if ?ok then Exhausted (counts_table date_iter ds)
            else Broke (counts_table date_iter (scanned search_all date_iter ds)))"
    if "length ds = length (concat pages) \<and> tail \<noteq> [] \<and> py_any (hd tail) = Inr False"
  proof -
    from that have "?pre = ?coms" by simp
    with pre show ?thesis by simp
  qed
  have res: "result_of (for_list ?body ?coms (counts_table date_iter []))
               = Inr (counts_table date_iter (scanned search_all date_iter ds))"
    using assms(4) early full by (auto simp: scanned_all)
  have ex: "tail \<noteq> [] \<and> py_any (hd tail) = Inr False"
    if "exhausted (for_list ?body ?coms (counts_table date_iter []))"
    using assms(4) early that by auto
  have "fst (for_loop fuel srv ?body ?g (counts_table date_iter []) sent)
          = Some (result_of (for_list ?body (gen_entries ?g @ ?coms) (counts_table date_iter [])))"
    using assms(1,2,5) ex by (intro for_loop_stream [where k = 0 and tail = tail]) simp_all
  then show ?thesis by (simp add: commits_unfold res)
qed


text \<open>
  C8 on two pages of five commits: without \<^verbatim>\<open>search_all\<close> the scan ends at the fourth
  commit (31 December, before both dates), the fifth is not counted and no third page is
  asked for; with \<^verbatim>\<open>search_all\<close> it is counted.
\<close>

theorem commits_by_date_witness:
  "fst (commits 6
         (scripted [ok_page (JList [commit_at ''2024-01-03T18:00:00Z'', commit_at ''2024-01-03T09:30:00Z'']),
                    ok_page (JList [commit_at ''2024-01-02T23:59:59Z'', commit_at ''2023-12-31T08:00:00Z'',
                                    commit_at ''2024-01-02T10:00:00Z''])])
         client [(2024, 1, 3), (2024, 1, 2)] False no_kwargs [])
     = Some (Inr [((2024, 1, 3), 2), ((2024, 1, 2), 1)])
   \<and> fst (commits 6
         (scripted [ok_page (JList [commit_at ''2024-01-03T18:00:00Z'', commit_at ''2024-01-03T09:30:00Z'']),
                    ok_page (JList [commit_at ''2024-01-02T23:59:59Z'', commit_at ''2023-12-31T08:00:00Z'',
                                    commit_at ''2024-01-02T10:00:00Z'']),
                    ok_page (JList [])])
         client [(2024, 1, 3), (2024, 1, 2)] True no_kwargs [])
     = Some (Inr [((2024, 1, 3), 2), ((2024, 1, 2), 2)])"
proof -
  let ?p1 = "[commit_at ''2024-01-03T18:00:00Z'', commit_at ''2024-01-03T09:30:00Z'']"
  let ?p2 = "[commit_at ''2024-01-02T23:59:59Z'', commit_at ''2023-12-31T08:00:00Z'',
              commit_at ''2024-01-02T10:00:00Z'']"
  let ?srv = "scripted [ok_page (JList ?p1), ok_page (JList ?p2)]"
  let ?srv' = "scripted [ok_page (JList ?p1), ok_page (JList ?p2), ok_page (JList [])]"
  let ?ds = "[(2024, 1, 3), (2024, 1, 3), (2024, 1, 2), (2023, 12, 31)] :: date list"
  let ?ds' = "[(2024, 1, 3), (2024, 1, 3), (2024, 1, 2), (2023, 12, 31), (2024, 1, 2)] :: date list"
  let ?dates = "[(2024, 1, 3), (2024, 1, 2)] :: date list"
  have b: "list_all (list_ex truthy) [?p1, ?p2]" by (simp add: commit_at_def)
  have e: "length (concat [?p1, ?p2]) < (6::nat)" by simp
  have a: "serves ?srv [] (req_of (get_generator client (base_req client @ ''/commits'') no_kwargs))
             (map JList [?p1, ?p2] @ [])"
    by (simp add: scripted_def ok_page_def)
  have c: "map commit_date (take (length ?ds) (concat [?p1, ?p2])) = map Inr ?ds" by code_simp
  have d: "(\<not> False \<and> list_ex (\<lambda>c. too_early c ?dates) ?ds)
         \<or> (length ?ds = length (concat [?p1, ?p2]) \<and> [] \<noteq> ([] :: json list) \<and> py_any (hd []) = Inr False)"
    by (simp add: too_early_def)
  have f: "counts_table ?dates (scanned False ?dates ?ds) = [((2024, 1, 3), 2), ((2024, 1, 2), 1)]"
    by code_simp
  have a': "serves ?srv' [] (req_of (get_generator client (base_req client @ ''/commits'') no_kwargs))
             (map JList [?p1, ?p2] @ [JList []])"
    by (simp add: scripted_def ok_page_def)
  have c': "map commit_date (take (length ?ds') (concat [?p1, ?p2])) = map Inr ?ds'" by code_simp
  have d': "(\<not> True \<and> list_ex (\<lambda>c. too_early c ?dates) ?ds')
         \<or> (length ?ds' = length (concat [?p1, ?p2]) \<and> [JList []] \<noteq> [] \<and> py_any (hd [JList []]) = Inr False)"
    by simp
  have f': "counts_table ?dates (scanned True ?dates ?ds') = [((2024, 1, 3), 2), ((2024, 1, 2), 2)]"
    by code_simp
  from commits_by_date [OF a b c d e] have 1: "fst (commits 6 ?srv client ?dates False no_kwargs [])
     = Some (Inr [((2024, 1, 3), 2), ((2024, 1, 2), 1)])" unfolding f .
  from commits_by_date [OF a' b c' d' e] have 2: "fst (commits 6 ?srv' client ?dates True no_kwargs [])
     = Some (Inr [((2024, 1, 3), 2), ((2024, 1, 2), 2)])" unfolding f' .
  from 1 2 show ?thesis by blast
qed

end
